theory Spec2Isabelle
  imports Main "HOL-Library.Char_ord" "HOL-Library.List_Lexorder" "HOL-Library.Sublist"
begin

section \<open>Strings\<close>

text \<open>
  JavaScript strings are modelled as \<^typ>\<open>string\<close>. The model covers ASCII text: the
  character classes of the regular expressions in the source are ASCII classes, and
  \<open>toLowerCase\<close> is modelled on the letters A to Z (every other character is kept).
\<close>

definition toLowerChar :: "char \<Rightarrow> char" where
  "toLowerChar c =
     (case map_of (zip ''ABCDEFGHIJKLMNOPQRSTUVWXYZ'' ''abcdefghijklmnopqrstuvwxyz'') c of
        Some l \<Rightarrow> l
      | None \<Rightarrow> c)"

definition toLowerCase :: "string \<Rightarrow> string" where
  "toLowerCase s = map toLowerChar s"

text \<open>\<open>s.startsWith(p)\<close> and \<open>s.includes(t)\<close>; the empty string is included in every string.\<close>

definition startsWith :: "string \<Rightarrow> string \<Rightarrow> bool" where
  "startsWith s p = (take (length p) s = p)"

fun includesStr :: "string \<Rightarrow> string \<Rightarrow> bool" where
  "includesStr [] t = (t = [])"
| "includesStr (c # cs) t = (startsWith (c # cs) t \<or> includesStr cs t)"

section \<open>Paths\<close>

text \<open>
  POSIX paths. An entry of the walk lives in the directory reached from the repository
  root through the directory names \<open>dir\<close>; \<open>path.relative(repoPath, path.join(dir, name))\<close>
  is then the names joined by \<open>/\<close>.
\<close>

text \<open>\<open>xs.join(sep)\<close> on an array of strings, and \<open>s.split(c)\<close> for a one-character separator.\<close>

fun joinWith :: "string \<Rightarrow> string list \<Rightarrow> string" where
  "joinWith sep [] = []"
| "joinWith sep [s] = s"
| "joinWith sep (s # t # ss) = s @ sep @ joinWith sep (t # ss)"

fun splitOn :: "char \<Rightarrow> string \<Rightarrow> string list" where
  "splitOn sep [] = ['''']"
| "splitOn sep (c # cs) =
     (if c = sep then [] # splitOn sep cs
      else (case splitOn sep cs of [] \<Rightarrow> [c # []] | w # ws \<Rightarrow> (c # w) # ws))"

definition relativePath :: "string list \<Rightarrow> string \<Rightarrow> string" where
  "relativePath dir name = joinWith ''/'' (dir @ [name])"

text \<open>
  \<open>path.extname\<close> on a name without separators: the text from the last dot on, and the
  empty string when there is no dot, when the only dot is the first character, or when the
  name is \<open>..\<close>.
\<close>

definition extname :: "string \<Rightarrow> string" where
  "extname name =
     (if CHR ''.'' \<notin> set name then []
      else let startDot = length name - Suc (length (takeWhile (\<lambda>c. c \<noteq> CHR ''.'') (rev name)))
           in if startDot = 0 \<or> name = ''..'' then [] else drop startDot name)"

section \<open>The relevance scorer\<close>

text \<open>An element of \<open>results\<close> in \<open>findRelevantFiles\<close>.\<close>

record scoredFile =
  path :: string
  reason :: string
  score :: int

text \<open>
  What \<open>fs.readdirSync(dir, { withFileTypes: true })\<close> gives for a directory: it throws
  (\<open>ReadError\<close>) or returns the entries. An entry is a regular file, a directory (with
  its own listing), or something else (a symbolic link, a socket, ...), for which both
  \<open>isDirectory()\<close> and \<open>isFile()\<close> are false.
\<close>

datatype dirent = File string | Directory string listing | Other string
and listing = ReadError | Entries "dirent list"

definition codeExtensions :: "string list" where
  "codeExtensions = [''.ts'', ''.tsx'', ''.js'', ''.jsx'', ''.rs'', ''.py'', ''.go'', ''.md'']"

definition skipName :: "string \<Rightarrow> bool" where
  "skipName name \<longleftrightarrow>
     startsWith name ''.'' \<or> name = ''node_modules'' \<or> name = ''target'' \<or> name = ''dist''"

text \<open>The two loops with \<open>break\<close>: the first element that matches, if any.\<close>

definition matchingRef :: "string \<Rightarrow> string \<Rightarrow> string list \<Rightarrow> string option" where
  "matchingRef relPath name fileRefs =
     find (\<lambda>ref. includesStr relPath ref \<or> includesStr name ref) fileRefs"

definition matchingKeyword :: "string \<Rightarrow> string list \<Rightarrow> string option" where
  "matchingKeyword name keywords =
     find (\<lambda>keyword. includesStr (toLowerCase name) (toLowerCase keyword)) (take 20 keywords)"

text \<open>The score and the reasons of one file, in the order the source adds them.\<close>

definition scoreFile :: "string \<Rightarrow> string \<Rightarrow> string list \<Rightarrow> string list \<Rightarrow> int \<times> string list" where
  "scoreFile relPath name fileRefs keywords =
     (let (s1, r1) = (case matchingRef relPath name fileRefs of
                        Some ref \<Rightarrow> (10, [''Referenced in issue''])
                      | None \<Rightarrow> (0, []));
          (s2, r2) = (case matchingKeyword name keywords of
                        Some keyword \<Rightarrow> (s1 + 3, r1 @ [''Matches keyword: '' @ keyword])
                      | None \<Rightarrow> (s1, r1));
          (s3, r3) = (if name = ''README.md'' then (s2 + 2, r2 @ [''README file'']) else (s2, r2));
          (s4, r4) = (if includesStr name ''index'' \<or> includesStr name ''main'' \<or> includesStr name ''lib''
                      then (s3 + 1, r3 @ [''Entry point file'']) else (s3, r3))
      in (s4, r4))"

text \<open>\<open>reasons[0] || 'Relevant file'\<close>: the default stands in for a missing or empty reason.\<close>

definition firstReason :: "string list \<Rightarrow> string" where
  "firstReason reasons =
     (case reasons of [] \<Rightarrow> ''Relevant file'' | r # _ \<Rightarrow> if r = [] then ''Relevant file'' else r)"

text \<open>The branch of the loop body for a regular file: the records it pushes.\<close>

definition visitFile :: "string list \<Rightarrow> string list \<Rightarrow> string list \<Rightarrow> string \<Rightarrow> scoredFile list" where
  "visitFile fileRefs keywords dir name =
     (if extname name \<notin> set codeExtensions then []
      else let relPath = relativePath dir name;
               (sc, reasons) = scoreFile relPath name fileRefs keywords
           in if sc > 0 then [\<lparr>path = relPath, reason = firstReason reasons, score = sc\<rparr>] else [])"

text \<open>
  \<open>walkDir\<close> returns the records it pushes onto \<open>results\<close>, in push order. \<open>dir\<close> is the
  list of directory names from the repository root to the directory being read. Only
  \<open>readdirSync\<close> can throw inside the \<open>try\<close>, before anything is pushed, so a directory that
  cannot be read contributes nothing and the walk goes on with its siblings.
\<close>

fun walkDir :: "string list \<Rightarrow> string list \<Rightarrow> string list \<Rightarrow> nat \<Rightarrow> listing \<Rightarrow> scoredFile list"
and walkEntries :: "string list \<Rightarrow> string list \<Rightarrow> string list \<Rightarrow> nat \<Rightarrow> dirent list \<Rightarrow> scoredFile list"
where
  "walkDir fileRefs keywords dir depth l =
     (if depth > 5 then []
      else (case l of
              ReadError \<Rightarrow> []
            | Entries entries \<Rightarrow> walkEntries fileRefs keywords dir depth entries))"
| "walkEntries fileRefs keywords dir depth [] = []"
| "walkEntries fileRefs keywords dir depth (entry # entries) =
     (case entry of
        File name \<Rightarrow>
          (if skipName name then [] else visitFile fileRefs keywords dir name)
      | Directory name l \<Rightarrow>
          (if skipName name then [] else walkDir fileRefs keywords (dir @ [name]) (depth + 1) l)
      | Other name \<Rightarrow> [])
     @ walkEntries fileRefs keywords dir depth entries"

text \<open>
  \<open>Array.prototype.sort\<close> with a comparator is stable (ECMAScript 2019): modelled as a
  stable insertion sort driven by the comparator of the source.
\<close>

fun insertBy :: "('a \<Rightarrow> 'a \<Rightarrow> int) \<Rightarrow> 'a \<Rightarrow> 'a list \<Rightarrow> 'a list" where
  "insertBy cmp x [] = [x]"
| "insertBy cmp x (y # ys) = (if cmp x y \<le> 0 then x # y # ys else y # insertBy cmp x ys)"

definition arraySort :: "('a \<Rightarrow> 'a \<Rightarrow> int) \<Rightarrow> 'a list \<Rightarrow> 'a list" where
  "arraySort cmp xs = foldr (insertBy cmp) xs []"

definition byScoreDesc :: "scoredFile \<Rightarrow> scoredFile \<Rightarrow> int" where
  "byScoreDesc a b = score b - score a"

text \<open>\<open>xs.slice(0, end)\<close> for an integer \<open>end\<close>: a negative \<open>end\<close> counts from the end.\<close>

definition sliceFrom0 :: "int \<Rightarrow> 'a list \<Rightarrow> 'a list" where
  "sliceFrom0 end xs =
     (if end < 0 then take (nat (int (length xs) + end)) xs else take (nat end) xs)"

text \<open>The sorted and truncated records, before the final \<open>map\<close> drops the scores.\<close>

definition rankedFiles :: "listing \<Rightarrow> string list \<Rightarrow> string list \<Rightarrow> int \<Rightarrow> scoredFile list" where
  "rankedFiles repo fileRefs keywords maxFiles =
     sliceFrom0 maxFiles (arraySort byScoreDesc (walkDir fileRefs keywords [] 0 repo))"

definition findRelevantFiles :: "listing \<Rightarrow> string list \<Rightarrow> string list \<Rightarrow> int \<Rightarrow> (string \<times> string) list" where
  "findRelevantFiles repo fileRefs keywords maxFiles =
     map (\<lambda>r. (path r, reason r)) (rankedFiles repo fileRefs keywords maxFiles)"

text \<open>The default of the parameter \<open>maxFiles\<close>.\<close>

definition defaultMaxFiles :: int where
  "defaultMaxFiles = 10"


section \<open>Trees and paths, for stating where a file lies\<close>

text \<open>
  \<open>containsFile l ds name\<close>: the tree with listing \<open>l\<close> holds a regular file called \<open>name\<close>
  in the directory reached through the nested directories \<open>ds\<close>. It says nothing of what the
  walk does.
\<close>

fun containsFile :: "listing \<Rightarrow> string list \<Rightarrow> string \<Rightarrow> bool"
and containsFileIn :: "dirent list \<Rightarrow> string list \<Rightarrow> string \<Rightarrow> bool"
where
  "containsFile ReadError ds name = False"
| "containsFile (Entries entries) ds name = containsFileIn entries ds name"
| "containsFileIn [] ds name = False"
| "containsFileIn (File n # entries) ds name =
     ((ds = [] \<and> n = name) \<or> containsFileIn entries ds name)"
| "containsFileIn (Directory n l # entries) ds name =
     ((case ds of [] \<Rightarrow> False | d # ds' \<Rightarrow> n = d \<and> containsFile l ds' name)
      \<or> containsFileIn entries ds name)"
| "containsFileIn (Other n # entries) ds name = containsFileIn entries ds name"

text \<open>
  A file system never has a separator inside a name. \<open>validListing\<close> says so of every
  entry of a tree; under it the components of a relative path are the names it was
  joined from.
\<close>

definition validName :: "string \<Rightarrow> bool" where
  "validName name \<longleftrightarrow> CHR ''/'' \<notin> set name"

fun validListing :: "listing \<Rightarrow> bool"
and validEntries :: "dirent list \<Rightarrow> bool"
where
  "validListing ReadError = True"
| "validListing (Entries entries) = validEntries entries"
| "validEntries [] = True"
| "validEntries (File n # entries) = (validName n \<and> validEntries entries)"
| "validEntries (Directory n l # entries) = (validName n \<and> validListing l \<and> validEntries entries)"
| "validEntries (Other n # entries) = (validName n \<and> validEntries entries)"

text \<open>The components of a path: \<open>p.split('/')\<close>.\<close>

definition splitPath :: "string \<Rightarrow> string list" where
  "splitPath p = splitOn (CHR ''/'') p"

section \<open>The keyword extractor\<close>

text \<open>
  The character classes of the patterns, and the white space class on ASCII.
  \<open>wordBoundary\<close> is the word boundary of the patterns: the character before the position
  is a word character and the one after is not, or the other way round.
\<close>

definition isUpper :: "char \<Rightarrow> bool" where
  "isUpper c \<longleftrightarrow> c \<in> set ''ABCDEFGHIJKLMNOPQRSTUVWXYZ''"

definition isLower :: "char \<Rightarrow> bool" where
  "isLower c \<longleftrightarrow> c \<in> set ''abcdefghijklmnopqrstuvwxyz''"

definition isDigit :: "char \<Rightarrow> bool" where
  "isDigit c \<longleftrightarrow> c \<in> set ''0123456789''"

definition isLetter :: "char \<Rightarrow> bool" where
  "isLetter c \<longleftrightarrow> isLower c \<or> isUpper c"

definition isWordChar :: "char \<Rightarrow> bool" where
  "isWordChar c \<longleftrightarrow> isLetter c \<or> isDigit c \<or> c = CHR ''_''"

definition isSpace :: "char \<Rightarrow> bool" where
  "isSpace c \<longleftrightarrow> c \<in> set [CHR 0x09, CHR 0x0A, CHR 0x0B, CHR 0x0C, CHR 0x0D, CHR '' '']"

definition wordBoundary :: "char option \<Rightarrow> string \<Rightarrow> bool" where
  "wordBoundary prev rest \<longleftrightarrow>
     (case prev of None \<Rightarrow> False | Some p \<Rightarrow> isWordChar p) \<noteq>
     (case rest of [] \<Rightarrow> False | c # _ \<Rightarrow> isWordChar c)"

text \<open>
  The identifier pattern is a word boundary, one of three alternatives, and a word
  boundary. The alternatives are tried in this order:
  \<^item> \<^verbatim>\<open>[A-Z][a-z]+[A-Z][a-zA-Z]*\<close> (\<open>matchPascal\<close>),
  \<^item> \<^verbatim>\<open>[a-z]+_[a-z_]+\<close> (\<open>matchSnake\<close>),
  \<^item> \<^verbatim>\<open>[A-Z][A-Z_]+\<close> (\<open>matchScreaming\<close>).

  Each function gives the text matched at the start of its argument, closing boundary
  included. A repetition takes the longest run of its class: were it to give a character
  back, that character, a word character of the same class, would come next, where the
  next item of the pattern and the closing boundary both fail. So the longest run is the
  only candidate, and backtracking finds no other match.
\<close>

definition matchPascal :: "string \<Rightarrow> string option" where
  "matchPascal s =
     (case s of
        [] \<Rightarrow> None
      | c # cs \<Rightarrow>
          if \<not> isUpper c then None
          else let lows = takeWhile isLower cs; r1 = dropWhile isLower cs in
            if lows = [] then None
            else (case r1 of
                    [] \<Rightarrow> None
                  | u # r2 \<Rightarrow>
                      if \<not> isUpper u then None
                      else let letters = takeWhile isLetter r2; r3 = dropWhile isLetter r2 in
                        if wordBoundary (Some (last (u # letters))) r3
                        then Some (c # lows @ u # letters) else None))"

definition matchSnake :: "string \<Rightarrow> string option" where
  "matchSnake s =
     (let lows = takeWhile isLower s; r1 = dropWhile isLower s in
        if lows = [] then None
        else (case r1 of
                [] \<Rightarrow> None
              | u # r2 \<Rightarrow>
                  if u \<noteq> CHR ''_'' then None
                  else let tl = takeWhile (\<lambda>c. isLower c \<or> c = CHR ''_'') r2;
                           r3 = dropWhile (\<lambda>c. isLower c \<or> c = CHR ''_'') r2 in
                    if tl = [] then None
                    else if wordBoundary (Some (last tl)) r3 then Some (lows @ u # tl)
                    else None))"

definition matchScreaming :: "string \<Rightarrow> string option" where
  "matchScreaming s =
     (case s of
        [] \<Rightarrow> None
      | c # cs \<Rightarrow>
          if \<not> isUpper c then None
          else let tl = takeWhile (\<lambda>c. isUpper c \<or> c = CHR ''_'') cs;
                   r3 = dropWhile (\<lambda>c. isUpper c \<or> c = CHR ''_'') cs in
            if tl = [] then None
            else if wordBoundary (Some (last tl)) r3 then Some (c # tl)
            else None)"

definition matchIdentifier :: "char option \<Rightarrow> string \<Rightarrow> string option" where
  "matchIdentifier prev s =
     (if \<not> wordBoundary prev s then None
      else (case matchPascal s of
              Some m \<Rightarrow> Some m
            | None \<Rightarrow> (case matchSnake s of Some m \<Rightarrow> Some m | None \<Rightarrow> matchScreaming s)))"

lemma matchPascal_nonempty: "matchPascal s = Some m \<Longrightarrow> m \<noteq> []"
  by (auto simp: matchPascal_def Let_def split: list.splits if_splits)

lemma matchSnake_nonempty: "matchSnake s = Some m \<Longrightarrow> m \<noteq> []"
  by (auto simp: matchSnake_def Let_def split: list.splits if_splits)

lemma matchScreaming_nonempty: "matchScreaming s = Some m \<Longrightarrow> m \<noteq> []"
  by (auto simp: matchScreaming_def Let_def split: list.splits if_splits)

lemma matchIdentifier_nonempty: "matchIdentifier prev s = Some m \<Longrightarrow> m \<noteq> []"
  using matchPascal_nonempty matchSnake_nonempty matchScreaming_nonempty
  by (auto simp: matchIdentifier_def split: if_splits option.splits)

text \<open>
  \<open>text.matchAll\<close> with the global pattern: after a match the search goes on where the
  match ended, otherwise one character further. \<open>prev\<close> is the character before the
  position.
\<close>

function scanIdentifiers :: "char option \<Rightarrow> string \<Rightarrow> string list" where
  "scanIdentifiers prev [] = []"
| "scanIdentifiers prev (c # cs) =
     (case matchIdentifier prev (c # cs) of
        Some m \<Rightarrow> m # scanIdentifiers (Some (last m)) (drop (length m) (c # cs))
      | None \<Rightarrow> scanIdentifiers (Some c) cs)"
  by pat_completeness auto
termination
  by (relation "measure (\<lambda>(prev, s). length s)") (auto dest: matchIdentifier_nonempty)

definition stopWords :: "string list" where
  "stopWords =
    [''the'', ''a'', ''an'', ''is'', ''are'', ''was'', ''were'', ''be'', ''been'', ''being'',
     ''have'', ''has'', ''had'', ''do'', ''does'', ''did'', ''will'', ''would'', ''could'',
     ''should'', ''may'', ''might'', ''must'', ''shall'', ''can'', ''need'', ''dare'',
     ''ought'', ''used'', ''to'', ''of'', ''in'', ''for'', ''on'', ''with'', ''at'', ''by'',
     ''from'', ''as'', ''into'', ''through'', ''during'', ''before'', ''after'', ''above'',
     ''below'', ''between'', ''under'', ''again'', ''further'', ''then'', ''once'', ''here'',
     ''there'', ''when'', ''where'', ''why'', ''how'', ''all'', ''each'', ''few'', ''more'',
     ''most'', ''other'', ''some'', ''such'', ''no'', ''nor'', ''not'', ''only'', ''own'',
     ''same'', ''so'', ''than'', ''too'', ''very'', ''just'', ''and'', ''but'', ''if'', ''or'',
     ''because'', ''until'', ''while'', ''this'', ''that'', ''these'', ''those'', ''it'',
     ''its'', ''i'', ''me'', ''my'', ''we'', ''our'', ''you'', ''your'', ''he'', ''she'', ''they'']"

text \<open>
  The words: the lower-cased text with every character other than a lower-case letter, a
  digit or white space replaced by a blank, split at runs of white space (a text that
  begins or ends with white space gives an empty first or last piece), and filtered.
\<close>

definition blankNonAlnum :: "string \<Rightarrow> string" where
  "blankNonAlnum s = map (\<lambda>c. if isLower c \<or> isDigit c \<or> isSpace c then c else CHR '' '') s"

function splitWhitespace :: "string \<Rightarrow> string list" where
  "splitWhitespace s =
     (let w = takeWhile (\<lambda>c. \<not> isSpace c) s; rest = dropWhile (\<lambda>c. \<not> isSpace c) s in
        if rest = [] then [w] else w # splitWhitespace (dropWhile isSpace rest))"
  by pat_completeness auto
termination
proof (relation "measure length")
  show "wf (measure length)" by simp
next
  fix s w rest :: string
  assume r: "rest = dropWhile (\<lambda>c. \<not> isSpace c) s" "rest \<noteq> []"
  then obtain c cs where cs: "dropWhile (\<lambda>c. \<not> isSpace c) s = c # cs"
    by (cases "dropWhile (\<lambda>c. \<not> isSpace c) s") auto
  then have "isSpace c" by (simp add: dropWhile_eq_Cons_conv)
  then have "length (dropWhile isSpace rest) \<le> length cs"
    using cs r(1) by (simp add: length_dropWhile_le)
  also have "\<dots> < length (dropWhile (\<lambda>c. \<not> isSpace c) s)" using cs by simp
  also have "\<dots> \<le> length s" by (simp add: length_dropWhile_le)
  finally show "(dropWhile isSpace rest, s) \<in> measure length" by simp
qed

text \<open>Spreading a \<open>Set\<close> gives its elements in the order of their first insertion.\<close>

definition dedupe :: "'a list \<Rightarrow> 'a list" where
  "dedupe xs = foldl (\<lambda>acc x. if x \<in> set acc then acc else acc @ [x]) [] xs"

definition extractKeywords :: "string \<Rightarrow> string list" where
  "extractKeywords text =
     (let identifiers = scanIdentifiers None text;
          words = filter (\<lambda>w. length w > 3 \<and> w \<notin> set stopWords)
                    (splitWhitespace (blankNonAlnum (toLowerCase text)))
      in dedupe (identifiers @ words))"

section \<open>The task brief\<close>

text \<open>Decimal digits of a non-negative integer, as a template literal prints it.\<close>

fun showNat :: "nat \<Rightarrow> string" where
  "showNat n =
     (if n < 10 then [''0123456789'' ! n] else showNat (n div 10) @ [''0123456789'' ! (n mod 10)])"

declare showNat.simps [simp del]

definition newline :: string where
  "newline = [CHR 0x0A]"

text \<open>\<open>path.join(a, b)\<close> for a directory \<open>a\<close> without a trailing separator and a relative \<open>b\<close>.\<close>

definition pathJoin :: "string \<Rightarrow> string \<Rightarrow> string" where
  "pathJoin a b = a @ ''/'' @ b"

text \<open>
  \<open>readFileContent\<close>: \<open>readFileSync\<close> gives the content of a file or throws; the thrown
  error is carried as the text that \<open>${error}\<close> prints. The \<open>catch\<close> turns it into the
  marker.
\<close>

definition readFileContent :: "(string \<Rightarrow> string + string) \<Rightarrow> string \<Rightarrow> nat \<Rightarrow> string" where
  "readFileContent readFileSync filePath maxLines =
     (case readFileSync filePath of
        Inl error \<Rightarrow> ''[Error reading file: '' @ error @ '']''
      | Inr content \<Rightarrow>
          let lines = splitOn (CHR 0x0A) content in
            if length lines > maxLines
            then joinWith newline (take maxLines lines) @ newline @ newline @
                 ''... (truncated, '' @ showNat (length lines - maxLines) @ '' more lines)''
            else content)"

text \<open>
  The records of the source. \<open>issueFields\<close> holds the fields that \<open>DbIssue\<close> and the \<open>issue\<close>
  of a \<open>TaskContext\<close> share; of \<open>DbIssue\<close> the fields that the modelled code reads or writes
  are kept. The fields \<open>id\<close> of an issue, \<open>body\<close> of a comment and \<open>path\<close>, \<open>reason\<close> of a
  relevant file are called \<open>issue_id\<close>, \<open>commentBody\<close>, \<open>filePath\<close> and \<open>fileReason\<close>.
\<close>

record issueFields =
  title :: string
  body :: "string option"
  html_url :: string
  repo_name :: string

record issueHeader = issueFields +
  number :: nat
  labels :: "string list"

record issueComment =
  user :: string
  commentBody :: string
  created_at :: string

record relevantFile =
  filePath :: string
  content :: string
  fileReason :: string

record taskContext =
  issue :: issueHeader
  comments :: "issueComment list"
  relevantFiles :: "relevantFile list"
  repoPath :: string
  branchName :: string

text \<open>
  \<open>generateTaskFile\<close> pushes lines and joins them with a newline. The lines are given here
  section by section, in the order of the source. The date of a comment is formatted by
  \<open>toLocaleDateString\<close>, which depends on the locale of the process: it is a parameter.
\<close>

definition headerLines :: "taskContext \<Rightarrow> string list" where
  "headerLines ctx =
     [''# Issue #'' @ showNat (number (issue ctx)) @ '': '' @ title (issue ctx),
      '''',
      ''**Repository:** '' @ repo_name (issue ctx),
      ''**Branch:** `'' @ branchName ctx @ ''`'',
      ''**GitHub URL:** '' @ html_url (issue ctx),
      ''**Local Path:** `'' @ repoPath ctx @ ''`'']
     @ (if length (labels (issue ctx)) > 0
        then [''**Labels:** '' @ joinWith '', '' (labels (issue ctx))] else [])
     @ ['''', ''---'', '''', ''## Issue Description'', '''',
        (case body (issue ctx) of
           None \<Rightarrow> ''*No description provided*''
         | Some b \<Rightarrow> if b = [] then ''*No description provided*'' else b),
        '''']"

definition commentLines :: "(string \<Rightarrow> string) \<Rightarrow> issueComment \<Rightarrow> string list" where
  "commentLines toLocaleDateString comment =
     [''### @'' @ user comment @ '' ('' @ toLocaleDateString (created_at comment) @ '')'',
      '''', commentBody comment, '''']"

definition commentsSection :: "(string \<Rightarrow> string) \<Rightarrow> taskContext \<Rightarrow> string list" where
  "commentsSection toLocaleDateString ctx =
     (if length (comments ctx) > 0
      then [''## Comments'', ''''] @ concat (map (commentLines toLocaleDateString) (comments ctx))
      else [])"

definition fileLines :: "relevantFile \<Rightarrow> string list" where
  "fileLines file =
     [''### `'' @ filePath file @ ''`'',
      ''*'' @ fileReason file @ ''*'',
      '''',
      ''```'',
      content file,
      ''```'',
      '''']"

definition filesSection :: "taskContext \<Rightarrow> string list" where
  "filesSection ctx =
     [''---'', '''', ''## Relevant Files'', '''']
     @ (if length (relevantFiles ctx) = 0
        then [''*No relevant files automatically identified. You may need to explore the repository.*'']
        else concat (map fileLines (relevantFiles ctx)))"

definition footerLines :: "taskContext \<Rightarrow> string list" where
  "footerLines ctx =
     [''---'', '''', ''## How to Fix'', '''',
      ''1. Open this repository in your editor:'',
      ''   ```bash'',
      ''   github-agent open '' @ showNat (number (issue ctx)),
      ''   ```'',
      '''',
      ''2. The branch has already been created: `'' @ branchName ctx @ ''`'',
      '''',
      ''3. Fix the issue described above'',
      '''',
      ''4. After fixing, push your changes:'',
      ''   ```bash'',
      ''   github-agent push '' @ showNat (number (issue ctx)),
      ''   ```'',
      '''']"

definition taskFileLines :: "(string \<Rightarrow> string) \<Rightarrow> taskContext \<Rightarrow> string list" where
  "taskFileLines toLocaleDateString ctx =
     headerLines ctx @ commentsSection toLocaleDateString ctx @ filesSection ctx @ footerLines ctx"

definition generateTaskFile :: "(string \<Rightarrow> string) \<Rightarrow> taskContext \<Rightarrow> string" where
  "generateTaskFile toLocaleDateString ctx = joinWith newline (taskFileLines toLocaleDateString ctx)"

section \<open>Issues and their processing\<close>

datatype issueStatus = New | Ready | InProgress | Fixed | Pushed | Skipped

record dbIssue = issueFields +
  issue_id :: nat
  issue_number :: nat
  first_seen_at :: string
  status :: issueStatus
  branch_name :: "string option"
  task_file_path :: "string option"

text \<open>
  What the code reaches outside itself, as it answers during one run: git, the forge, the
  file system and the configuration. A call that can throw returns the error text on the
  left. \<open>getIssueDetails\<close> catches its own errors and returns \<open>null\<close> (\<open>None\<close>), and otherwise
  the names of the labels and the comments. \<open>extractFileReferences\<close> is not modelled: its
  result is taken as given. \<open>createBranch\<close> stands for the git operations of
  \<open>createIssueBranch\<close> and the branch name they check out.
\<close>

record env =
  ensureRepoCloned :: "string \<Rightarrow> string + string"
  createBranch :: "dbIssue \<Rightarrow> string + string"
  getIssueDetails :: "string \<Rightarrow> nat \<Rightarrow> (string list \<times> issueComment list) option"
  extractFileReferences :: "string \<Rightarrow> string list"
  readdir :: "string \<Rightarrow> listing"
  readFileSync :: "string \<Rightarrow> string + string"
  writeFileSync :: "string \<Rightarrow> string \<Rightarrow> string option"
  toLocaleDateString :: "string \<Rightarrow> string"
  tasksDir :: string

text \<open>
  The state that the processing changes: the rows of the table \<open>issues\<close>, the task files
  written, and the messages that \<open>processNewIssues\<close> itself logs. The statements on the
  database and the logger are taken to succeed.
\<close>

datatype logLevel = Info | Error

record world =
  issues :: "dbIssue list"
  taskFiles :: "(string \<times> string) list"
  logged :: "(logLevel \<times> string) list"

text \<open>
  \<open>SELECT * FROM issues WHERE status = ? ORDER BY first_seen_at DESC\<close>: the rows of the
  status, latest first (SQL leaves the order of rows with equal keys open).
\<close>

definition getIssuesByStatus :: "issueStatus \<Rightarrow> world \<Rightarrow> dbIssue list" where
  "getIssuesByStatus s w = rev (sort_key first_seen_at (filter (\<lambda>r. status r = s) (issues w)))"

definition updateIssueStatus :: "nat \<Rightarrow> issueStatus \<Rightarrow> world \<Rightarrow> world" where
  "updateIssueStatus i s w =
     w\<lparr>issues := map (\<lambda>r. if issue_id r = i then r\<lparr>status := s\<rparr> else r) (issues w)\<rparr>"

definition updateIssueBranch :: "nat \<Rightarrow> string \<Rightarrow> world \<Rightarrow> world" where
  "updateIssueBranch i b w =
     w\<lparr>issues := map (\<lambda>r. if issue_id r = i then r\<lparr>branch_name := Some b\<rparr> else r) (issues w)\<rparr>"

definition updateIssueTaskFile :: "nat \<Rightarrow> string \<Rightarrow> world \<Rightarrow> world" where
  "updateIssueTaskFile i p w =
     w\<lparr>issues := map (\<lambda>r. if issue_id r = i then r\<lparr>task_file_path := Some p\<rparr> else r) (issues w)\<rparr>"

definition logMessage :: "logLevel \<Rightarrow> string \<Rightarrow> world \<Rightarrow> world" where
  "logMessage level msg w = w\<lparr>logged := logged w @ [(level, msg)]\<rparr>"

definition createIssueBranch :: "env \<Rightarrow> dbIssue \<Rightarrow> world \<Rightarrow> (string + string) \<times> world" where
  "createIssueBranch e iss w =
     (case createBranch e iss of
        Inl error \<Rightarrow> (Inl error, w)
      | Inr name \<Rightarrow> (Inr name, updateIssueBranch (issue_id iss) name w))"

text \<open>The text of the issue that the extractors read.\<close>

definition issueText :: "env \<Rightarrow> dbIssue \<Rightarrow> string" where
  "issueText e iss =
     title iss @ newline @ (case body iss of None \<Rightarrow> [] | Some b \<Rightarrow> b) @ newline @
     (case getIssueDetails e (repo_name iss) (issue_number iss) of
        None \<Rightarrow> []
      | Some (ls, cs) \<Rightarrow> joinWith newline (map commentBody cs))"

definition relevantFilePaths :: "env \<Rightarrow> dbIssue \<Rightarrow> string \<Rightarrow> (string \<times> string) list" where
  "relevantFilePaths e iss repo =
     findRelevantFiles (readdir e repo) (extractFileReferences e (issueText e iss))
       (extractKeywords (issueText e iss)) defaultMaxFiles"

text \<open>The \<open>context\<close> object of \<open>buildContext\<close>, with the content of each relevant file read.\<close>

definition buildTaskContext :: "env \<Rightarrow> dbIssue \<Rightarrow> string \<Rightarrow> string \<Rightarrow> taskContext" where
  "buildTaskContext e iss repo branch =
     \<lparr>issue = \<lparr>title = title iss, body = body iss, html_url = html_url iss,
               repo_name = repo_name iss, number = issue_number iss,
               labels = (case getIssueDetails e (repo_name iss) (issue_number iss) of
                           None \<Rightarrow> [] | Some (ls, cs) \<Rightarrow> ls)\<rparr>,
      comments = (case getIssueDetails e (repo_name iss) (issue_number iss) of
                    None \<Rightarrow> [] | Some (ls, cs) \<Rightarrow> cs),
      relevantFiles =
        map (\<lambda>(p, rsn). \<lparr>filePath = p,
                           content = readFileContent (readFileSync e) (pathJoin repo p) 500,
                           fileReason = rsn\<rparr>)
          (relevantFilePaths e iss repo),
      repoPath = repo,
      branchName = branch\<rparr>"

definition taskContent :: "env \<Rightarrow> dbIssue \<Rightarrow> string \<Rightarrow> string \<Rightarrow> string" where
  "taskContent e iss repo branch =
     generateTaskFile (toLocaleDateString e) (buildTaskContext e iss repo branch)"

definition taskFilePathOf :: "env \<Rightarrow> dbIssue \<Rightarrow> string" where
  "taskFilePathOf e iss =
     pathJoin (tasksDir e) (repo_name iss @ ''-'' @ showNat (issue_number iss) @ ''.md'')"

definition buildContext :: "env \<Rightarrow> dbIssue \<Rightarrow> string \<Rightarrow> string \<Rightarrow> world \<Rightarrow> (string + string) \<times> world" where
  "buildContext e iss repo branch w =
     (case writeFileSync e (taskFilePathOf e iss) (taskContent e iss repo branch) of
        Some error \<Rightarrow> (Inl error, w)
      | None \<Rightarrow>
          (Inr (taskFilePathOf e iss),
           updateIssueStatus (issue_id iss) Ready
             (updateIssueTaskFile (issue_id iss) (taskFilePathOf e iss)
               (w\<lparr>taskFiles := taskFiles w @ [(taskFilePathOf e iss, taskContent e iss repo branch)]\<rparr>))))"

text \<open>
  The body of the \<open>try\<close> in \<open>processNewIssues\<close>: the thrown error, or nothing.
  \<open>notifyIssueReady\<close> catches its own errors and changes nothing of the state: it is left out.
\<close>

definition tryProcess :: "env \<Rightarrow> dbIssue \<Rightarrow> world \<Rightarrow> (string + unit) \<times> world" where
  "tryProcess e iss w =
     (let w0 = logMessage Info
                 (''Processing issue #'' @ showNat (issue_number iss) @ '' in '' @ repo_name iss) w
      in case ensureRepoCloned e (repo_name iss) of
           Inl error \<Rightarrow> (Inl error, w0)
         | Inr repo \<Rightarrow>
             (case createIssueBranch e iss w0 of
                (Inl error, w1) \<Rightarrow> (Inl error, w1)
              | (Inr branch, w1) \<Rightarrow>
                  (case buildContext e iss repo branch w1 of
                     (Inl error, w2) \<Rightarrow> (Inl error, w2)
                   | (Inr taskFilePath, w2) \<Rightarrow>
                       (Inr (),
                        logMessage Info
                          (''Issue #'' @ showNat (issue_number iss) @ '' is ready for fixing'') w2))))"

text \<open>One round of the loop: the \<open>try\<close>, and the \<open>catch\<close> that marks the issue as skipped.\<close>

definition processIssue :: "env \<Rightarrow> dbIssue \<Rightarrow> world \<Rightarrow> world" where
  "processIssue e iss w =
     (case tryProcess e iss w of
        (Inr u, w') \<Rightarrow> w'
      | (Inl error, w') \<Rightarrow>
          updateIssueStatus (issue_id iss) Skipped
            (logMessage Error
               (''Failed to process issue #'' @ showNat (issue_number iss) @ '': '' @ error) w'))"

definition processNewIssues :: "env \<Rightarrow> world \<Rightarrow> world" where
  "processNewIssues e w = foldl (\<lambda>w' iss. processIssue e iss w') w (getIssuesByStatus New w)"

definition statusOf :: "nat \<Rightarrow> world \<Rightarrow> issueStatus option" where
  "statusOf i w = map_option status (find (\<lambda>r. issue_id r = i) (issues w))"

text \<open>Whether the body of the \<open>try\<close> throws depends on the answers of the outside only.\<close>

definition throws :: "env \<Rightarrow> dbIssue \<Rightarrow> bool" where
  "throws e iss \<longleftrightarrow>
     (case ensureRepoCloned e (repo_name iss) of
        Inl error \<Rightarrow> True
      | Inr repo \<Rightarrow>
          (case createBranch e iss of
             Inl error \<Rightarrow> True
           | Inr branch \<Rightarrow>
               writeFileSync e (taskFilePathOf e iss) (taskContent e iss repo branch) \<noteq> None))"

text \<open>The entry that the loop logs when it takes up an issue, and the test for such an entry.\<close>

definition processingEntry :: "dbIssue \<Rightarrow> logLevel \<times> string" where
  "processingEntry iss =
     (Info, ''Processing issue #'' @ showNat (issue_number iss) @ '' in '' @ repo_name iss)"

definition isProcessingEntry :: "logLevel \<times> string \<Rightarrow> bool" where
  "isProcessingEntry entry \<longleftrightarrow> fst entry = Info \<and> prefix ''Processing issue #'' (snd entry)"

section \<open>Sample inputs\<close>

text \<open>
  An outside in which the repository \<open>acme/broken\<close> cannot be cloned, every other step
  succeeds, and no file of the working copy can be read any more.
\<close>

definition sampleEnv :: env where
  "sampleEnv =
     \<lparr>ensureRepoCloned = (\<lambda>name. if name = ''acme/broken''
          then Inl ''Error: Repository acme/broken not found in database. Run a scan first.''
          else Inr (''/repos/'' @ name)),
      createBranch = (\<lambda>iss. Inr (''fix/issue-'' @ showNat (issue_number iss))),
      getIssueDetails = (\<lambda>name n. None),
      extractFileReferences = (\<lambda>text. []),
      readdir = (\<lambda>repo. Entries [File ''main.ts'']),
      readFileSync = (\<lambda>file. Inl ''Error: ENOENT: no such file or directory''),
      writeFileSync = (\<lambda>file text. None),
      toLocaleDateString = (\<lambda>date. date),
      tasksDir = ''/tasks''\<rparr>"

definition sampleIssue :: "nat \<Rightarrow> string \<Rightarrow> string \<Rightarrow> dbIssue" where
  "sampleIssue n repo seen =
     \<lparr>title = ''Crash on start'', body = None, html_url = ''https://example.org/issue'',
      repo_name = repo, issue_id = n, issue_number = n, first_seen_at = seen, status = New,
      branch_name = None, task_file_path = None\<rparr>"

definition sampleWorld :: world where
  "sampleWorld =
     \<lparr>issues = [sampleIssue 1 ''acme/broken'' ''2024-01-02'', sampleIssue 2 ''acme/app'' ''2024-01-01''],
      taskFiles = [], logged = []\<rparr>"

section \<open>Properties of the relevance scorer\<close>

subsection \<open>The walk, the sort and the slice\<close>

lemma visitFile_score_pos: "r \<in> set (visitFile fileRefs keywords dir name) \<Longrightarrow> 0 < score r"
  by (auto simp: visitFile_def Let_def split: if_splits prod.splits)

lemma walk_score_pos:
  "\<forall>r \<in> set (walkDir fileRefs keywords dir depth l). 0 < score r"
  "\<forall>r \<in> set (walkEntries fileRefs keywords dir depth es). 0 < score r"
  by (induction fileRefs "keywords" dir depth l and fileRefs "keywords" dir depth es
      rule: walkDir_walkEntries.induct)
    (auto simp: visitFile_score_pos split: listing.splits dirent.splits)

lemma set_insertBy: "set (insertBy cmp x ys) = insert x (set ys)"
  by (induction ys) auto

lemma set_arraySort: "set (arraySort cmp xs) = set xs"
  by (induction xs) (auto simp: arraySort_def set_insertBy)

lemma length_insertBy: "length (insertBy cmp x ys) = Suc (length ys)"
  by (induction ys) auto

lemma length_arraySort: "length (arraySort cmp xs) = length xs"
  by (induction xs) (auto simp: arraySort_def length_insertBy)

lemma sorted_insertBy:
  "sorted_wrt (\<lambda>a b. score b \<le> score a) ys \<Longrightarrow>
   sorted_wrt (\<lambda>a b. score b \<le> score a) (insertBy byScoreDesc x ys)"
  by (induction ys) (auto simp: byScoreDesc_def set_insertBy)

lemma sorted_arraySort: "sorted_wrt (\<lambda>a b. score b \<le> score a) (arraySort byScoreDesc xs)"
  by (induction xs) (auto simp: arraySort_def sorted_insertBy)

text \<open>
  Stability: inserting \<open>x\<close> in front of a list places it before every element of the same
  score, so the elements of one score keep the order they had.
\<close>

lemma filter_insertBy:
  "filter (\<lambda>r. score r = k) (insertBy byScoreDesc x ys) =
   (if score x = k then x # filter (\<lambda>r. score r = k) ys else filter (\<lambda>r. score r = k) ys)"
  by (induction ys) (auto simp: byScoreDesc_def)

lemma filter_arraySort:
  "filter (\<lambda>r. score r = k) (arraySort byScoreDesc xs) = filter (\<lambda>r. score r = k) xs"
  by (induction xs) (auto simp: arraySort_def filter_insertBy)

lemma set_sliceFrom0: "set (sliceFrom0 n xs) \<subseteq> set xs"
  by (auto simp: sliceFrom0_def dest: in_set_takeD)

lemma length_sliceFrom0: "0 \<le> n \<Longrightarrow> int (length (sliceFrom0 n xs)) \<le> n"
  by (auto simp: sliceFrom0_def)

lemma sliceFrom0_nonneg: "0 \<le> n \<Longrightarrow> sliceFrom0 n xs = take (nat n) xs"
  by (simp add: sliceFrom0_def)

lemma rankedFiles_subset:
  "set (rankedFiles repo fileRefs keywords maxFiles) \<subseteq> set (walkDir fileRefs keywords [] 0 repo)"
  using set_sliceFrom0 [of maxFiles "arraySort byScoreDesc (walkDir fileRefs keywords [] 0 repo)"]
  by (simp add: rankedFiles_def set_arraySort)

subsection \<open>Concrete runs\<close>

lemma walk_four_files:
  "walkDir [] [] [] 0
     (Entries [File ''main.ts'', File ''README.md'', File ''index.ts'', File ''lib.rs'']) =
   [\<lparr>path = ''main.ts'', reason = ''Entry point file'', score = 1\<rparr>,
    \<lparr>path = ''README.md'', reason = ''README file'', score = 2\<rparr>,
    \<lparr>path = ''index.ts'', reason = ''Entry point file'', score = 1\<rparr>,
    \<lparr>path = ''lib.rs'', reason = ''Entry point file'', score = 1\<rparr>]"
  by code_simp

lemma sort_four_files:
  "arraySort byScoreDesc
     [\<lparr>path = ''main.ts'', reason = ''Entry point file'', score = 1\<rparr>,
      \<lparr>path = ''README.md'', reason = ''README file'', score = 2\<rparr>,
      \<lparr>path = ''index.ts'', reason = ''Entry point file'', score = 1\<rparr>,
      \<lparr>path = ''lib.rs'', reason = ''Entry point file'', score = 1\<rparr>] =
   [\<lparr>path = ''README.md'', reason = ''README file'', score = 2\<rparr>,
    \<lparr>path = ''main.ts'', reason = ''Entry point file'', score = 1\<rparr>,
    \<lparr>path = ''index.ts'', reason = ''Entry point file'', score = 1\<rparr>,
    \<lparr>path = ''lib.rs'', reason = ''Entry point file'', score = 1\<rparr>]"
  by code_simp

lemma ranked_four_files:
  "rankedFiles (Entries [File ''main.ts'', File ''README.md'', File ''index.ts'', File ''lib.rs''])
     [] [] 2 =
   [\<lparr>path = ''README.md'', reason = ''README file'', score = 2\<rparr>,
    \<lparr>path = ''main.ts'', reason = ''Entry point file'', score = 1\<rparr>]"
  by code_simp

subsection \<open>Bound and positivity\<close>

text \<open>
  Claim C2. For every repository tree, list of file references and list of keywords,
  \<open>findRelevantFiles\<close> returns at most \<open>maxFiles\<close> entries, at most 10 with the default of
  the parameter, and every returned entry is the path and reason of a record whose score is
  strictly greater than 0. The limit is a count: the bound is stated for \<open>0 \<le> maxFiles\<close>.
\<close>

theorem findRelevantFiles_bounded_positive:
  "length (findRelevantFiles repo fileRefs keywords defaultMaxFiles) \<le> 10 \<and>
   (0 \<le> maxFiles \<longrightarrow> int (length (findRelevantFiles repo fileRefs keywords maxFiles)) \<le> maxFiles) \<and>
   findRelevantFiles repo fileRefs keywords maxFiles =
     map (\<lambda>r. (path r, reason r)) (rankedFiles repo fileRefs keywords maxFiles) \<and>
   (\<forall>r \<in> set (rankedFiles repo fileRefs keywords maxFiles). 0 < score r)"
proof (intro conjI)
  show "length (findRelevantFiles repo fileRefs keywords defaultMaxFiles) \<le> 10"
    using length_sliceFrom0 [of 10 "arraySort byScoreDesc (walkDir fileRefs keywords [] 0 repo)"]
    by (simp add: findRelevantFiles_def rankedFiles_def defaultMaxFiles_def)
  show "0 \<le> maxFiles \<longrightarrow> int (length (findRelevantFiles repo fileRefs keywords maxFiles)) \<le> maxFiles"
    by (simp add: findRelevantFiles_def rankedFiles_def length_sliceFrom0)
  show "findRelevantFiles repo fileRefs keywords maxFiles =
     map (\<lambda>r. (path r, reason r)) (rankedFiles repo fileRefs keywords maxFiles)"
    by (simp add: findRelevantFiles_def)
  show "\<forall>r \<in> set (rankedFiles repo fileRefs keywords maxFiles). 0 < score r"
    using rankedFiles_subset walk_score_pos(1) by blast
qed

theorem findRelevantFiles_bounded_positive_witness:
  "(0::int) \<le> 2 \<and>
   int (length (findRelevantFiles
     (Entries [File ''main.ts'', File ''README.md'', File ''index.ts'', File ''lib.rs'']) [] [] 2)) \<le> 2 \<and>
   rankedFiles (Entries [File ''main.ts'', File ''README.md'', File ''index.ts'', File ''lib.rs''])
     [] [] 2 =
     [\<lparr>path = ''README.md'', reason = ''README file'', score = 2\<rparr>,
      \<lparr>path = ''main.ts'', reason = ''Entry point file'', score = 1\<rparr>] \<and>
   list_all (\<lambda>r. 0 < score r) (rankedFiles
      (Entries [File ''main.ts'', File ''README.md'', File ''index.ts'', File ''lib.rs'']) [] [] 2)"
  using findRelevantFiles_bounded_positive
    [of "Entries [File ''main.ts'', File ''README.md'', File ''index.ts'', File ''lib.rs'']" "[]" "[]" 2]
  by (simp add: ranked_four_files)

subsection \<open>Order of the result\<close>

text \<open>
  Claim C4. The surviving records (all of score greater than 0) are sorted by score,
  descending, by a stable sort: for every score, the records of that score stand in the
  sorted list in the order in which the walk found them. The sorted list is then cut to
  its first \<open>maxFiles\<close> elements and the scores are dropped.
\<close>

theorem findRelevantFiles_stable_descending:
  "(\<forall>r \<in> set (walkDir fileRefs keywords [] 0 repo). 0 < score r) \<and>
   sorted_wrt (\<lambda>a b. score b \<le> score a)
     (arraySort byScoreDesc (walkDir fileRefs keywords [] 0 repo)) \<and>
   (\<forall>k. filter (\<lambda>r. score r = k) (arraySort byScoreDesc (walkDir fileRefs keywords [] 0 repo)) =
        filter (\<lambda>r. score r = k) (walkDir fileRefs keywords [] 0 repo)) \<and>
   (0 \<le> maxFiles \<longrightarrow>
      findRelevantFiles repo fileRefs keywords maxFiles =
        map (\<lambda>r. (path r, reason r))
          (take (nat maxFiles) (arraySort byScoreDesc (walkDir fileRefs keywords [] 0 repo))))"
proof (intro conjI)
  show "\<forall>r \<in> set (walkDir fileRefs keywords [] 0 repo). 0 < score r"
    by (rule walk_score_pos(1))
  show "sorted_wrt (\<lambda>a b. score b \<le> score a)
     (arraySort byScoreDesc (walkDir fileRefs keywords [] 0 repo))"
    by (rule sorted_arraySort)
  show "\<forall>k. filter (\<lambda>r. score r = k) (arraySort byScoreDesc (walkDir fileRefs keywords [] 0 repo)) =
        filter (\<lambda>r. score r = k) (walkDir fileRefs keywords [] 0 repo)"
    by (simp add: filter_arraySort)
  show "0 \<le> maxFiles \<longrightarrow>
      findRelevantFiles repo fileRefs keywords maxFiles =
        map (\<lambda>r. (path r, reason r))
          (take (nat maxFiles) (arraySort byScoreDesc (walkDir fileRefs keywords [] 0 repo)))"
    by (simp add: findRelevantFiles_def rankedFiles_def sliceFrom0_nonneg)
qed

theorem findRelevantFiles_stable_descending_witness:
  "(0::int) \<le> 3 \<and>
   findRelevantFiles
     (Entries [File ''main.ts'', File ''README.md'', File ''index.ts'', File ''lib.rs'']) [] [] 3 =
     [(''README.md'', ''README file''), (''main.ts'', ''Entry point file''),
      (''index.ts'', ''Entry point file'')] \<and>
   list_all (\<lambda>r. 0 < score r) (walkDir [] [] [] 0
      (Entries [File ''main.ts'', File ''README.md'', File ''index.ts'', File ''lib.rs'']))"
  using findRelevantFiles_stable_descending
    [of "[]" "[]" "Entries [File ''main.ts'', File ''README.md'', File ''index.ts'', File ''lib.rs'']" 3,
     unfolded walk_four_files sort_four_files]
  by (simp add: walk_four_files del: walkDir.simps)

subsection \<open>Monotonicity of the score\<close>

lemma find_mono: "set xs \<subseteq> set ys \<Longrightarrow> find P xs \<noteq> None \<Longrightarrow> find P ys \<noteq> None"
  by (auto simp: find_None_iff)

lemma matchingRef_mono:
  "set fileRefs1 \<subseteq> set fileRefs2 \<Longrightarrow> matchingRef relPath name fileRefs1 \<noteq> None \<Longrightarrow>
   matchingRef relPath name fileRefs2 \<noteq> None"
  unfolding matchingRef_def by (rule find_mono)

lemma matchingKeyword_mono:
  "set (take 20 keywords1) \<subseteq> set (take 20 keywords2) \<Longrightarrow> matchingKeyword name keywords1 \<noteq> None \<Longrightarrow>
   matchingKeyword name keywords2 \<noteq> None"
  unfolding matchingKeyword_def by (rule find_mono)

lemma fst_scoreFile:
  "fst (scoreFile relPath name fileRefs keywords) =
     (if matchingRef relPath name fileRefs \<noteq> None then 10 else 0) +
     (if matchingKeyword name keywords \<noteq> None then 3 else 0) +
     (if name = ''README.md'' then 2 else 0) +
     (if includesStr name ''index'' \<or> includesStr name ''main'' \<or> includesStr name ''lib''
      then 1 else 0)"
  by (cases "matchingRef relPath name fileRefs"; cases "matchingKeyword name keywords")
     (simp_all add: scoreFile_def)

lemma scoreFile_mono:
  assumes "set fileRefs1 \<subseteq> set fileRefs2" "set (take 20 keywords1) \<subseteq> set (take 20 keywords2)"
  shows "fst (scoreFile relPath name fileRefs1 keywords1) \<le> fst (scoreFile relPath name fileRefs2 keywords2)"
proof -
  have a: "matchingRef relPath name fileRefs1 \<noteq> None \<Longrightarrow> matchingRef relPath name fileRefs2 \<noteq> None"
    by (rule matchingRef_mono [OF assms(1)])
  have b: "matchingKeyword name keywords1 \<noteq> None \<Longrightarrow> matchingKeyword name keywords2 \<noteq> None"
    by (rule matchingKeyword_mono [OF assms(2)])
  have "(if matchingRef relPath name fileRefs1 \<noteq> None then 10 else 0::int)
      \<le> (if matchingRef relPath name fileRefs2 \<noteq> None then 10 else 0)"
    using a by simp
  moreover have "(if matchingKeyword name keywords1 \<noteq> None then 3 else 0::int)
      \<le> (if matchingKeyword name keywords2 \<noteq> None then 3 else 0)"
    using b by simp
  ultimately show ?thesis
    unfolding fst_scoreFile by linarith
qed

lemma visitFile_mono:
  assumes "set fileRefs1 \<subseteq> set fileRefs2" "set (take 20 keywords1) \<subseteq> set (take 20 keywords2)"
    and "r1 \<in> set (visitFile fileRefs1 keywords1 dir name)"
  shows "\<exists>r2 \<in> set (visitFile fileRefs2 keywords2 dir name). path r2 = path r1 \<and> score r1 \<le> score r2"
proof -
  obtain s1 rs1 where e1: "scoreFile (relativePath dir name) name fileRefs1 keywords1 = (s1, rs1)"
    by (cases "scoreFile (relativePath dir name) name fileRefs1 keywords1")
  obtain s2 rs2 where e2: "scoreFile (relativePath dir name) name fileRefs2 keywords2 = (s2, rs2)"
    by (cases "scoreFile (relativePath dir name) name fileRefs2 keywords2")
  have le: "s1 \<le> s2"
    using scoreFile_mono [OF assms(1,2), of "relativePath dir name" name] by (simp add: e1 e2)
  from assms(3) have r1: "extname name \<in> set codeExtensions" "0 < s1"
    "r1 = \<lparr>path = relativePath dir name, reason = firstReason rs1, score = s1\<rparr>"
    by (auto simp: visitFile_def e1 split: if_splits)
  with le show ?thesis
    by (simp add: visitFile_def e2)
qed

lemma walk_mono:
  assumes "set fileRefs1 \<subseteq> set fileRefs2" "set (take 20 keywords1) \<subseteq> set (take 20 keywords2)"
  shows "\<forall>r1 \<in> set (walkDir fileRefs1 keywords1 dir depth l).
           \<exists>r2 \<in> set (walkDir fileRefs2 keywords2 dir depth l). path r2 = path r1 \<and> score r1 \<le> score r2"
    and "\<forall>r1 \<in> set (walkEntries fileRefs1 keywords1 dir depth es).
           \<exists>r2 \<in> set (walkEntries fileRefs2 keywords2 dir depth es). path r2 = path r1 \<and> score r1 \<le> score r2"
  using assms
proof (induction fileRefs1 keywords1 dir depth l and fileRefs1 keywords1 dir depth es
      rule: walkDir_walkEntries.induct)
  case (1 fileRefs kws dir depth l)
  then show ?case by (cases l) simp_all
next
  case (2 fileRefs kws dir depth)
  then show ?case by simp
next
  case (3 fileRefs kws dir depth entry entries)
  have tl: "\<forall>r1 \<in> set (walkEntries fileRefs kws dir depth entries).
           \<exists>r2 \<in> set (walkEntries fileRefs2 keywords2 dir depth entries). path r2 = path r1 \<and> score r1 \<le> score r2"
    using 3 by blast
  show ?case
  proof (cases entry)
    case (File name)
    have "\<forall>r1 \<in> set (visitFile fileRefs kws dir name).
           \<exists>r2 \<in> set (visitFile fileRefs2 keywords2 dir name). path r2 = path r1 \<and> score r1 \<le> score r2"
      using visitFile_mono [OF "3.prems"] by blast
    with tl File show ?thesis by (simp add: Bex_def Ball_def) blast
  next
    case (Directory name sub)
    have "\<not> skipName name \<Longrightarrow> \<forall>r1 \<in> set (walkDir fileRefs kws (dir @ [name]) (depth + 1) sub).
           \<exists>r2 \<in> set (walkDir fileRefs2 keywords2 (dir @ [name]) (depth + 1) sub). path r2 = path r1 \<and> score r1 \<le> score r2"
      using "3.IH"(1) [OF Directory] "3.prems" by blast
    with tl Directory show ?thesis by (simp add: Bex_def Ball_def del: walkDir.simps) blast
  next
    case (Other name)
    with tl show ?thesis by simp
  qed
qed


text \<open>
  Claim C1, as amended. Only the first 20 keywords are looked at, so a keyword list that
  contains another one need not score a file higher: the keywords that count are those
  among the first 20. If every file reference of the first list is in the second, and every
  keyword among the first 20 of the first list is among the first 20 of the second, then the
  score of every file under the second pair is greater than or equal to its score under the
  first, and every file that the walk records under the first pair is recorded under the
  second with a score at least as high.
\<close>

theorem scoreFile_monotone:
  assumes "set fileRefs1 \<subseteq> set fileRefs2"
    and "set (take 20 keywords1) \<subseteq> set (take 20 keywords2)"
  shows "fst (scoreFile relPath name fileRefs1 keywords1)
           \<le> fst (scoreFile relPath name fileRefs2 keywords2) \<and>
         (\<forall>r1 \<in> set (walkDir fileRefs1 keywords1 [] 0 repo).
            \<exists>r2 \<in> set (walkDir fileRefs2 keywords2 [] 0 repo).
              path r2 = path r1 \<and> score r1 \<le> score r2)"
  using scoreFile_mono [OF assms] walk_mono(1) [OF assms] by blast

lemma walk_auth_before:
  "walkDir [] [''auth''] [] 0 (Entries [Directory ''src'' (Entries [File ''auth.ts'', File ''other.ts''])]) =
   [\<lparr>path = ''src/auth.ts'', reason = ''Matches keyword: auth'', score = 3\<rparr>]"
  by code_simp

lemma walk_auth_after:
  "walkDir [''auth.ts''] [''auth'', ''other''] [] 0
     (Entries [Directory ''src'' (Entries [File ''auth.ts'', File ''other.ts''])]) =
   [\<lparr>path = ''src/auth.ts'', reason = ''Referenced in issue'', score = 13\<rparr>,
    \<lparr>path = ''src/other.ts'', reason = ''Matches keyword: other'', score = 3\<rparr>]"
  by code_simp

lemma score_auth_before: "scoreFile ''src/auth.ts'' ''auth.ts'' [] [''auth''] = (3, [''Matches keyword: auth''])"
  by code_simp

lemma score_auth_after:
  "scoreFile ''src/auth.ts'' ''auth.ts'' [''auth.ts''] [''auth'', ''other''] =
   (13, [''Referenced in issue'', ''Matches keyword: auth''])"
  by code_simp

theorem scoreFile_monotone_witness:
  "set ([]::string list) \<subseteq> set [''auth.ts''] \<and>
   set (take 20 [''auth'']) \<subseteq> set (take 20 [''auth'', ''other'']) \<and>
   fst (scoreFile ''src/auth.ts'' ''auth.ts'' [] [''auth'']) = 3 \<and>
   fst (scoreFile ''src/auth.ts'' ''auth.ts'' [''auth.ts''] [''auth'', ''other'']) = 13 \<and>
   fst (scoreFile ''src/auth.ts'' ''auth.ts'' [] [''auth''])
     \<le> fst (scoreFile ''src/auth.ts'' ''auth.ts'' [''auth.ts''] [''auth'', ''other'']) \<and>
   list_all (\<lambda>r1. list_ex (\<lambda>r2. path r2 = path r1 \<and> score r1 \<le> score r2)
       (walkDir [''auth.ts''] [''auth'', ''other''] [] 0
          (Entries [Directory ''src'' (Entries [File ''auth.ts'', File ''other.ts''])])))
     (walkDir [] [''auth''] [] 0
        (Entries [Directory ''src'' (Entries [File ''auth.ts'', File ''other.ts''])]))"
proof -
  have h1: "set ([]::string list) \<subseteq> set [''auth.ts'']" by simp
  have h2: "set (take 20 [''auth'']) \<subseteq> set (take 20 [''auth'', ''other''])" by simp
  note t = scoreFile_monotone [OF h1 h2, of "''src/auth.ts''" "''auth.ts''"
      "Entries [Directory ''src'' (Entries [File ''auth.ts'', File ''other.ts''])]"]
  from t h1 h2 show ?thesis
    unfolding walk_auth_before walk_auth_after score_auth_before score_auth_after
    by simp
qed

text \<open>
  The claim as stated fails: \<open>login\<close> is in both keyword lists, but it is the 21st keyword
  of the longer one, and \<open>login.ts\<close> scores 3 under the shorter list and 0 under the longer.
\<close>

theorem keyword_superset_counterexample:
  "set [''login''] \<subseteq>
     set [''alpha'', ''bravo'', ''charlie'', ''delta'', ''echo'', ''foxtrot'', ''golf'', ''hotel'',
          ''india'', ''juliet'', ''kilo'', ''lima'', ''mike'', ''november'', ''oscar'', ''papa'',
          ''quebec'', ''romeo'', ''sierra'', ''tango'', ''login''] \<and>
   fst (scoreFile ''login.ts'' ''login.ts'' [] [''login'']) = 3 \<and>
   fst (scoreFile ''login.ts'' ''login.ts'' []
     [''alpha'', ''bravo'', ''charlie'', ''delta'', ''echo'', ''foxtrot'', ''golf'', ''hotel'',
      ''india'', ''juliet'', ''kilo'', ''lima'', ''mike'', ''november'', ''oscar'', ''papa'',
      ''quebec'', ''romeo'', ''sierra'', ''tango'', ''login'']) = 0 \<and>
   findRelevantFiles (Entries [File ''login.ts'']) [] [''login''] 10 =
     [(''login.ts'', ''Matches keyword: login'')] \<and>
   findRelevantFiles (Entries [File ''login.ts'']) []
     [''alpha'', ''bravo'', ''charlie'', ''delta'', ''echo'', ''foxtrot'', ''golf'', ''hotel'',
      ''india'', ''juliet'', ''kilo'', ''lima'', ''mike'', ''november'', ''oscar'', ''papa'',
      ''quebec'', ''romeo'', ''sierra'', ''tango'', ''login''] 10 = []"
proof (intro conjI)
  show "set [''login''] \<subseteq>
     set [''alpha'', ''bravo'', ''charlie'', ''delta'', ''echo'', ''foxtrot'', ''golf'', ''hotel'',
          ''india'', ''juliet'', ''kilo'', ''lima'', ''mike'', ''november'', ''oscar'', ''papa'',
          ''quebec'', ''romeo'', ''sierra'', ''tango'', ''login'']"
    by simp
  show "fst (scoreFile ''login.ts'' ''login.ts'' [] [''login'']) = 3"
    by code_simp
  show "fst (scoreFile ''login.ts'' ''login.ts'' []
     [''alpha'', ''bravo'', ''charlie'', ''delta'', ''echo'', ''foxtrot'', ''golf'', ''hotel'',
      ''india'', ''juliet'', ''kilo'', ''lima'', ''mike'', ''november'', ''oscar'', ''papa'',
      ''quebec'', ''romeo'', ''sierra'', ''tango'', ''login'']) = 0"
    by code_simp
  show "findRelevantFiles (Entries [File ''login.ts'']) [] [''login''] 10 =
     [(''login.ts'', ''Matches keyword: login'')]"
    by code_simp
  show "findRelevantFiles (Entries [File ''login.ts'']) []
     [''alpha'', ''bravo'', ''charlie'', ''delta'', ''echo'', ''foxtrot'', ''golf'', ''hotel'',
      ''india'', ''juliet'', ''kilo'', ''lima'', ''mike'', ''november'', ''oscar'', ''papa'',
      ''quebec'', ''romeo'', ''sierra'', ''tango'', ''login''] 10 = []"
    by code_simp
qed

subsection \<open>Scenarios\<close>

text \<open>
  Claim C3, as amended. With the file references \<open>["auth.ts"]\<close>, no keywords, and a tree
  holding exactly the files \<open>src/auth.ts\<close> and \<open>src/other.ts\<close> (in either order),
  \<open>findRelevantFiles\<close> returns only \<open>src/auth.ts\<close>, which got score 10; its reason is the
  string \<open>Referenced in issue\<close>, with a capital R.
\<close>

theorem auth_scenario:
  "rankedFiles (Entries [Directory ''src'' (Entries [File ''auth.ts'', File ''other.ts''])])
     [''auth.ts''] [] defaultMaxFiles =
     [\<lparr>path = ''src/auth.ts'', reason = ''Referenced in issue'', score = 10\<rparr>] \<and>
   findRelevantFiles (Entries [Directory ''src'' (Entries [File ''auth.ts'', File ''other.ts''])])
     [''auth.ts''] [] defaultMaxFiles = [(''src/auth.ts'', ''Referenced in issue'')] \<and>
   rankedFiles (Entries [Directory ''src'' (Entries [File ''other.ts'', File ''auth.ts''])])
     [''auth.ts''] [] defaultMaxFiles =
     [\<lparr>path = ''src/auth.ts'', reason = ''Referenced in issue'', score = 10\<rparr>] \<and>
   findRelevantFiles (Entries [Directory ''src'' (Entries [File ''other.ts'', File ''auth.ts''])])
     [''auth.ts''] [] defaultMaxFiles = [(''src/auth.ts'', ''Referenced in issue'')]"
  by (intro conjI; code_simp)

text \<open>The reason returned is not the string \<open>referenced in issue\<close> of the claim.\<close>

theorem auth_scenario_reason_counterexample:
  "findRelevantFiles (Entries [Directory ''src'' (Entries [File ''auth.ts'', File ''other.ts''])])
     [''auth.ts''] [] defaultMaxFiles \<noteq> [(''src/auth.ts'', ''referenced in issue'')] \<and>
   map snd (findRelevantFiles (Entries [Directory ''src'' (Entries [File ''auth.ts'', File ''other.ts''])])
     [''auth.ts''] [] defaultMaxFiles) = [''Referenced in issue'']"
  by (intro conjI; code_simp)

subsection \<open>The README rule\<close>

lemma walk_contains:
  "containsFile l ds name \<Longrightarrow> depth + length ds \<le> 5 \<Longrightarrow> \<forall>d \<in> set ds. \<not> skipName d \<Longrightarrow>
   \<not> skipName name \<Longrightarrow>
   set (visitFile fileRefs kws (dir @ ds) name) \<subseteq> set (walkDir fileRefs kws dir depth l)"
  "containsFileIn es ds name \<Longrightarrow> depth + length ds \<le> 5 \<Longrightarrow> \<forall>d \<in> set ds. \<not> skipName d \<Longrightarrow>
   \<not> skipName name \<Longrightarrow>
   set (visitFile fileRefs kws (dir @ ds) name) \<subseteq> set (walkEntries fileRefs kws dir depth es)"
proof (induction l ds name and es ds name arbitrary: dir depth and dir depth
    rule: containsFile_containsFileIn.induct)
  case (1 ds name)
  then show ?case by simp
next
  case (2 entries ds name)
  then show ?case by simp
next
  case (3 ds name)
  then show ?case by simp
next
  case (4 n entries ds name)
  then show ?case by auto
next
  case (5 n l entries ds name)
  show ?case
  proof (cases "containsFileIn entries ds name")
    case True
    from "5.IH"(2) [OF True "5.prems"(2,3,4)] show ?thesis by auto
  next
    case False
    with "5.prems"(1) obtain ds' where ds: "ds = n # ds'" and c: "containsFile l ds' name"
      by (auto split: list.splits)
    have "set (visitFile fileRefs kws ((dir @ [n]) @ ds') name)
        \<subseteq> set (walkDir fileRefs kws (dir @ [n]) (depth + 1) l)"
      using "5.IH"(1) [OF ds c, of "depth + 1" "dir @ [n]"] "5.prems"(2,3,4) ds by simp
    moreover have "\<not> skipName n" using "5.prems"(3) ds by simp
    ultimately show ?thesis using ds by (auto simp del: walkDir.simps)
  qed
next
  case (6 n entries ds name)
  then show ?case by auto
qed

lemma find_None_all: "find P xs = None \<longleftrightarrow> (\<forall>x \<in> set xs. \<not> P x)"
  by (auto simp: find_None_iff)

lemma skipName_readme: "\<not> skipName ''README.md''"
  by (simp add: skipName_def startsWith_def)

lemma extname_readme: "extname ''README.md'' = ''.md''"
  by code_simp

lemma readme_not_entry_point:
  "\<not> (includesStr ''README.md'' ''index'' \<or> includesStr ''README.md'' ''main'' \<or> includesStr ''README.md'' ''lib'')"
  by code_simp

lemma scoreFile_readme:
  assumes "\<forall>ref \<in> set fileRefs. \<not> includesStr relPath ref \<and> \<not> includesStr ''README.md'' ref"
    and "\<forall>keyword \<in> set (take 20 keywords).
           \<not> includesStr (toLowerCase ''README.md'') (toLowerCase keyword)"
  shows "scoreFile relPath ''README.md'' fileRefs keywords = (2, [''README file''])"
proof -
  have a: "matchingRef relPath ''README.md'' fileRefs = None"
    using assms(1) by (simp add: matchingRef_def find_None_all)
  have b: "matchingKeyword ''README.md'' keywords = None"
    using assms(2) unfolding matchingKeyword_def find_None_all by blast
  show ?thesis
    using readme_not_entry_point by (simp add: scoreFile_def a b)
qed

lemma visitFile_readme:
  assumes "scoreFile (relativePath dir ''README.md'') ''README.md'' fileRefs keywords = (2, [''README file''])"
  shows "visitFile fileRefs keywords dir ''README.md'' =
     [\<lparr>path = relativePath dir ''README.md'', reason = ''README file'', score = 2\<rparr>]"
  by (simp add: visitFile_def assms extname_readme codeExtensions_def firstReason_def)

lemma sliceFrom0_all: "int (length xs) \<le> n \<Longrightarrow> sliceFrom0 n xs = xs"
  by (auto simp: sliceFrom0_def)


text \<open>
  Claim C5. A file named \<open>README.md\<close> that matches no file reference and none of the
  keywords that are looked at (the first 20) gets score 2, and its only reason is
  \<open>README file\<close>. The score is above the discard threshold: wherever the walk reaches the
  file (inside at most 5 nested directories, none of them skipped, each readable), the
  record with score 2 and reason \<open>README file\<close> is among the results of the walk, and it is
  returned when the results do not exceed \<open>maxFiles\<close>.
\<close>

theorem readme_scored:
  assumes "\<forall>ref \<in> set fileRefs.
             \<not> includesStr (relativePath ds ''README.md'') ref \<and> \<not> includesStr ''README.md'' ref"
    and "\<forall>keyword \<in> set (take 20 keywords).
           \<not> includesStr (toLowerCase ''README.md'') (toLowerCase keyword)"
  shows "scoreFile (relativePath ds ''README.md'') ''README.md'' fileRefs keywords =
           (2, [''README file'']) \<and>
         (containsFile repo ds ''README.md'' \<and> length ds \<le> 5 \<and> (\<forall>d \<in> set ds. \<not> skipName d) \<longrightarrow>
            \<lparr>path = relativePath ds ''README.md'', reason = ''README file'', score = 2\<rparr>
              \<in> set (walkDir fileRefs keywords [] 0 repo) \<and>
            (int (length (walkDir fileRefs keywords [] 0 repo)) \<le> maxFiles \<longrightarrow>
               (relativePath ds ''README.md'', ''README file'')
                 \<in> set (findRelevantFiles repo fileRefs keywords maxFiles)))"
proof (intro conjI impI)
  show sc: "scoreFile (relativePath ds ''README.md'') ''README.md'' fileRefs keywords =
           (2, [''README file''])"
    by (rule scoreFile_readme [OF assms])
  assume reach: "containsFile repo ds ''README.md'' \<and> length ds \<le> 5 \<and> (\<forall>d \<in> set ds. \<not> skipName d)"
  have "set (visitFile fileRefs keywords ([] @ ds) ''README.md'')
          \<subseteq> set (walkDir fileRefs keywords [] 0 repo)"
    using reach skipName_readme by (intro walk_contains(1)) simp_all
  then show inw: "\<lparr>path = relativePath ds ''README.md'', reason = ''README file'', score = 2\<rparr>
              \<in> set (walkDir fileRefs keywords [] 0 repo)"
    using visitFile_readme [OF sc] by (simp del: walkDir.simps)
  assume "int (length (walkDir fileRefs keywords [] 0 repo)) \<le> maxFiles"
  then have "set (rankedFiles repo fileRefs keywords maxFiles) = set (walkDir fileRefs keywords [] 0 repo)"
    by (simp add: rankedFiles_def sliceFrom0_all length_arraySort set_arraySort del: walkDir.simps)
  with inw have "\<lparr>path = relativePath ds ''README.md'', reason = ''README file'', score = 2\<rparr>
      \<in> set (rankedFiles repo fileRefs keywords maxFiles)"
    by simp
  then have "(\<lambda>r. (path r, reason r)) \<lparr>path = relativePath ds ''README.md'', reason = ''README file'', score = 2\<rparr>
      \<in> set (findRelevantFiles repo fileRefs keywords maxFiles)"
    unfolding findRelevantFiles_def set_map by (rule imageI)
  then show "(relativePath ds ''README.md'', ''README file'')
                 \<in> set (findRelevantFiles repo fileRefs keywords maxFiles)"
    by simp
qed

lemma walk_docs_readme:
  "walkDir [''app.ts''] [''login''] [] 0
     (Entries [Directory ''docs'' (Entries [File ''README.md'']), File ''app.ts'']) =
   [\<lparr>path = ''docs/README.md'', reason = ''README file'', score = 2\<rparr>,
    \<lparr>path = ''app.ts'', reason = ''Referenced in issue'', score = 10\<rparr>]"
  by code_simp

lemma find_docs_readme:
  "findRelevantFiles (Entries [Directory ''docs'' (Entries [File ''README.md'']), File ''app.ts''])
     [''app.ts''] [''login''] 10 =
   [(''app.ts'', ''Referenced in issue''), (''docs/README.md'', ''README file'')]"
  by code_simp

theorem readme_scored_witness:
  "list_all (\<lambda>ref. \<not> includesStr (relativePath [''docs''] ''README.md'') ref \<and>
                    \<not> includesStr ''README.md'' ref) [''app.ts''] \<and>
   list_all (\<lambda>keyword. \<not> includesStr (toLowerCase ''README.md'') (toLowerCase keyword))
     (take 20 [''login'']) \<and>
   containsFile (Entries [Directory ''docs'' (Entries [File ''README.md'']), File ''app.ts''])
     [''docs''] ''README.md'' \<and>
   length [''docs''] \<le> 5 \<and> list_all (\<lambda>d. \<not> skipName d) [''docs''] \<and>
   scoreFile ''docs/README.md'' ''README.md'' [''app.ts''] [''login''] = (2, [''README file'']) \<and>
   \<lparr>path = ''docs/README.md'', reason = ''README file'', score = 2\<rparr>
     \<in> set (walkDir [''app.ts''] [''login''] [] 0
         (Entries [Directory ''docs'' (Entries [File ''README.md'']), File ''app.ts''])) \<and>
   (''docs/README.md'', ''README file'')
     \<in> set (findRelevantFiles
         (Entries [Directory ''docs'' (Entries [File ''README.md'']), File ''app.ts''])
         [''app.ts''] [''login''] 10)"
proof -
  have h1: "\<forall>ref \<in> set [''app.ts''].
             \<not> includesStr (relativePath [''docs''] ''README.md'') ref \<and> \<not> includesStr ''README.md'' ref"
    by code_simp
  have h2: "\<forall>keyword \<in> set (take 20 [''login'']).
           \<not> includesStr (toLowerCase ''README.md'') (toLowerCase keyword)"
    by code_simp
  have h3: "containsFile (Entries [Directory ''docs'' (Entries [File ''README.md'']), File ''app.ts''])
     [''docs''] ''README.md'' \<and> length [''docs''] \<le> 5 \<and> (\<forall>d \<in> set [''docs'']. \<not> skipName d)"
    by code_simp
  have p: "relativePath [''docs''] ''README.md'' = ''docs/README.md''"
    by code_simp
  note t = readme_scored [OF h1 h2,
      of "Entries [Directory ''docs'' (Entries [File ''README.md'']), File ''app.ts'']" 10,
      unfolded p walk_docs_readme find_docs_readme]
  from t h3 have "scoreFile ''docs/README.md'' ''README.md'' [''app.ts''] [''login''] = (2, [''README file''])"
    by blast
  with h1 h2 h3 show ?thesis
    unfolding walk_docs_readme find_docs_readme list_all_iff p
    by simp
qed

subsection \<open>Names the walk skips\<close>

lemma splitOn_single: "c \<notin> set s \<Longrightarrow> splitOn c s = [s]"
  by (induction s) auto

lemma splitOn_append: "c \<notin> set s \<Longrightarrow> splitOn c (s @ c # rest) = s # splitOn c rest"
  by (induction s) auto

lemma splitOn_joinWith:
  "segs \<noteq> [] \<Longrightarrow> \<forall>s \<in> set segs. c \<notin> set s \<Longrightarrow> sep = [c] \<Longrightarrow>
   splitOn c (joinWith sep segs) = segs"
proof (induction sep segs rule: joinWith.induct)
  case (1 sep)
  then show ?case by simp
next
  case (2 sep s)
  then show ?case by (simp add: splitOn_single)
next
  case (3 sep s t ss)
  then show ?case by (simp add: splitOn_append)
qed

lemma splitPath_joinSegs:
  "segs \<noteq> [] \<Longrightarrow> \<forall>s \<in> set segs. validName s \<Longrightarrow> splitPath (joinWith ''/'' segs) = segs"
  unfolding splitPath_def by (rule splitOn_joinWith) (simp_all add: validName_def)

lemma visitFile_path: "r \<in> set (visitFile fileRefs kws dir name) \<Longrightarrow> path r = relativePath dir name"
  by (auto simp: visitFile_def Let_def split: if_splits prod.splits)

text \<open>Every recorded path is made of names the walk did not skip.\<close>

lemma walk_path_names:
  "r \<in> set (walkDir fileRefs kws dir depth l) \<Longrightarrow> validListing l \<Longrightarrow>
   \<exists>ds name. path r = relativePath (dir @ ds) name \<and>
     (\<forall>d \<in> set ds. \<not> skipName d \<and> validName d) \<and> \<not> skipName name \<and> validName name"
  "r \<in> set (walkEntries fileRefs kws dir depth es) \<Longrightarrow> validEntries es \<Longrightarrow>
   \<exists>ds name. path r = relativePath (dir @ ds) name \<and>
     (\<forall>d \<in> set ds. \<not> skipName d \<and> validName d) \<and> \<not> skipName name \<and> validName name"
proof (induction fileRefs kws dir depth l and fileRefs kws dir depth es
    rule: walkDir_walkEntries.induct)
  case (1 fileRefs kws dir depth l)
  then show ?case by (cases l) (simp_all split: if_splits)
next
  case (2 fileRefs kws dir depth)
  then show ?case by simp
next
  case (3 fileRefs kws dir depth entry entries)
  show ?case
  proof (cases "r \<in> set (walkEntries fileRefs kws dir depth entries)")
    case True
    moreover have "validEntries entries" using "3.prems"(2) by (cases entry) simp_all
    ultimately show ?thesis by (rule "3.IH"(2))
  next
    case False
    show ?thesis
    proof (cases entry)
      case (File name)
      with False "3.prems" have "\<not> skipName name" "r \<in> set (visitFile fileRefs kws dir name)"
        "validName name"
        by (auto split: if_splits)
      then have "path r = relativePath (dir @ []) name \<and>
        (\<forall>d \<in> set []. \<not> skipName d \<and> validName d) \<and> \<not> skipName name \<and> validName name"
        by (simp add: visitFile_path)
      then show ?thesis by blast
    next
      case (Directory name sub)
      with False "3.prems" have a: "\<not> skipName name"
        "r \<in> set (walkDir fileRefs kws (dir @ [name]) (depth + 1) sub)" "validName name" "validListing sub"
        by (auto split: if_splits simp del: walkDir.simps)
      from "3.IH"(1) [OF Directory a(1) a(2) a(4)]
      obtain ds n where "path r = relativePath ((dir @ [name]) @ ds) n"
        "\<forall>d \<in> set ds. \<not> skipName d \<and> validName d" "\<not> skipName n" "validName n"
        by blast
      with a have "path r = relativePath (dir @ (name # ds)) n \<and>
        (\<forall>d \<in> set (name # ds). \<not> skipName d \<and> validName d) \<and> \<not> skipName n \<and> validName n"
        by simp
      then show ?thesis by blast
    next
      case (Other name)
      with False "3.prems" show ?thesis by simp
    qed
  qed
qed

lemma ranked_path_names:
  assumes "validListing repo" "r \<in> set (rankedFiles repo fileRefs kws maxFiles)"
  shows "\<exists>ds name. splitPath (path r) = ds @ [name] \<and> (\<forall>d \<in> set ds. \<not> skipName d) \<and> \<not> skipName name"
proof -
  have "r \<in> set (walkDir fileRefs kws [] 0 repo)"
    using assms(2) rankedFiles_subset by blast
  from walk_path_names(1) [OF this assms(1)]
  obtain ds name where p: "path r = relativePath ([] @ ds) name"
    and v: "\<forall>d \<in> set ds. \<not> skipName d \<and> validName d" "\<not> skipName name" "validName name"
    by blast
  have "splitPath (joinWith ''/'' (ds @ [name])) = ds @ [name]"
    using v by (intro splitPath_joinSegs) auto
  then have "splitPath (path r) = ds @ [name]"
    by (simp add: p relativePath_def)
  with v show ?thesis by blast
qed


text \<open>
  Claim C8. A directory named \<open>node_modules\<close>, \<open>target\<close> or \<open>dist\<close>, or whose name begins
  with a dot, is passed over at every depth: the loop goes on with the next entry and the
  directory contributes nothing. Hence no path returned by \<open>findRelevantFiles\<close> has such a
  name among its directory components.
\<close>

theorem skipped_directories_not_descended:
  "(name = ''node_modules'' \<or> name = ''target'' \<or> name = ''dist'' \<or> startsWith name ''.'' \<longrightarrow>
      walkEntries fileRefs keywords dir depth (Directory name l # entries) =
      walkEntries fileRefs keywords dir depth entries) \<and>
   (validListing repo \<longrightarrow>
      (\<forall>(p, rsn) \<in> set (findRelevantFiles repo fileRefs keywords maxFiles).
         \<forall>seg \<in> set (butlast (splitPath p)).
           seg \<noteq> ''node_modules'' \<and> seg \<noteq> ''target'' \<and> seg \<noteq> ''dist'' \<and> \<not> startsWith seg ''.''))"
proof (intro conjI impI)
  assume "name = ''node_modules'' \<or> name = ''target'' \<or> name = ''dist'' \<or> startsWith name ''.''"
  then have "skipName name" by (auto simp: skipName_def)
  then show "walkEntries fileRefs keywords dir depth (Directory name l # entries) =
      walkEntries fileRefs keywords dir depth entries"
    by simp
next
  assume v: "validListing repo"
  show "\<forall>(p, rsn) \<in> set (findRelevantFiles repo fileRefs keywords maxFiles).
         \<forall>seg \<in> set (butlast (splitPath p)).
           seg \<noteq> ''node_modules'' \<and> seg \<noteq> ''target'' \<and> seg \<noteq> ''dist'' \<and> \<not> startsWith seg ''.''"
  proof (clarify)
    fix p rsn seg
    assume "(p, rsn) \<in> set (findRelevantFiles repo fileRefs keywords maxFiles)"
      and seg: "seg \<in> set (butlast (splitPath p))"
    then obtain r where r: "r \<in> set (rankedFiles repo fileRefs keywords maxFiles)" "p = path r"
      by (auto simp: findRelevantFiles_def)
    from ranked_path_names [OF v r(1)] obtain ds n where
      "splitPath (path r) = ds @ [n]" "\<forall>d \<in> set ds. \<not> skipName d"
      by blast
    with seg r(2) have "\<not> skipName seg" by simp
    then show "seg \<noteq> ''node_modules'' \<and> seg \<noteq> ''target'' \<and> seg \<noteq> ''dist'' \<and> \<not> startsWith seg ''.''"
      by (auto simp: skipName_def)
  qed
qed

text \<open>
  Claim C10. The test on the name comes before the test on the kind of entry, so it holds
  for files too: a regular file whose name begins with a dot is passed over, whatever the
  file references are, and the file name of every returned path begins with something
  other than a dot.
\<close>

theorem dot_files_skipped:
  "(startsWith name ''.'' \<longrightarrow>
      walkEntries fileRefs keywords dir depth (File name # entries) =
      walkEntries fileRefs keywords dir depth entries) \<and>
   (validListing repo \<longrightarrow>
      (\<forall>(p, rsn) \<in> set (findRelevantFiles repo fileRefs keywords maxFiles).
         \<not> startsWith (last (splitPath p)) ''.''))"
proof (intro conjI impI)
  assume "startsWith name ''.''"
  then have "skipName name" by (simp add: skipName_def)
  then show "walkEntries fileRefs keywords dir depth (File name # entries) =
      walkEntries fileRefs keywords dir depth entries"
    by simp
next
  assume v: "validListing repo"
  show "\<forall>(p, rsn) \<in> set (findRelevantFiles repo fileRefs keywords maxFiles).
         \<not> startsWith (last (splitPath p)) ''.''"
  proof (clarify)
    fix p rsn
    assume "(p, rsn) \<in> set (findRelevantFiles repo fileRefs keywords maxFiles)"
      and dot: "startsWith (last (splitPath p)) ''.''"
    then obtain r where r: "r \<in> set (rankedFiles repo fileRefs keywords maxFiles)" "p = path r"
      by (auto simp: findRelevantFiles_def)
    from ranked_path_names [OF v r(1)] obtain ds n where
      "splitPath (path r) = ds @ [n]" "\<not> skipName n"
      by blast
    with dot r(2) show False by (simp add: skipName_def)
  qed
qed

lemma find_node_modules:
  "findRelevantFiles
     (Entries [Directory ''node_modules'' (Entries [File ''index.js'']),
               Directory ''src'' (Entries [Directory ''lib'' (Entries [File ''main.ts''])])])
     [''index.js''] [] 10 = [(''src/lib/main.ts'', ''Entry point file'')]"
  by code_simp

lemma walk_node_modules:
  "walkEntries [''index.js''] [] [] 0 [Directory ''node_modules'' (Entries [File ''index.js''])] = []"
  by code_simp

theorem skipped_directories_not_descended_witness:
  "(''node_modules'' = ''node_modules'' \<or> ''node_modules'' = ''target'' \<or> ''node_modules'' = ''dist''
      \<or> startsWith ''node_modules'' ''.'') \<and>
   walkEntries [''index.js''] [] [] 0 [Directory ''node_modules'' (Entries [File ''index.js''])] =
     walkEntries [''index.js''] [] [] 0 [] \<and>
   validListing
     (Entries [Directory ''node_modules'' (Entries [File ''index.js'']),
               Directory ''src'' (Entries [Directory ''lib'' (Entries [File ''main.ts''])])]) \<and>
   findRelevantFiles
     (Entries [Directory ''node_modules'' (Entries [File ''index.js'']),
               Directory ''src'' (Entries [Directory ''lib'' (Entries [File ''main.ts''])])])
     [''index.js''] [] 10 = [(''src/lib/main.ts'', ''Entry point file'')] \<and>
   butlast (splitPath ''src/lib/main.ts'') = [''src'', ''lib''] \<and>
   list_all (\<lambda>(p, rsn). list_all (\<lambda>seg. seg \<noteq> ''node_modules'' \<and> seg \<noteq> ''target'' \<and>
        seg \<noteq> ''dist'' \<and> \<not> startsWith seg ''.'') (butlast (splitPath p)))
     (findRelevantFiles
       (Entries [Directory ''node_modules'' (Entries [File ''index.js'']),
                 Directory ''src'' (Entries [Directory ''lib'' (Entries [File ''main.ts''])])])
       [''index.js''] [] 10)"
proof -
  have v: "validListing
     (Entries [Directory ''node_modules'' (Entries [File ''index.js'']),
               Directory ''src'' (Entries [Directory ''lib'' (Entries [File ''main.ts''])])])"
    by code_simp
  have s: "butlast (splitPath ''src/lib/main.ts'') = [''src'', ''lib'']"
    by code_simp
  note t = skipped_directories_not_descended
    [of "''node_modules''" "[''index.js'']" "[]" "[]" 0 "Entries [File ''index.js'']" "[]"
        "Entries [Directory ''node_modules'' (Entries [File ''index.js'']),
               Directory ''src'' (Entries [Directory ''lib'' (Entries [File ''main.ts''])])]" 10]
  from t v have
    "walkEntries [''index.js''] [] [] 0 [Directory ''node_modules'' (Entries [File ''index.js''])] =
     walkEntries [''index.js''] [] [] 0 []"
    and "\<forall>(p, rsn) \<in> set (findRelevantFiles
       (Entries [Directory ''node_modules'' (Entries [File ''index.js'']),
                 Directory ''src'' (Entries [Directory ''lib'' (Entries [File ''main.ts''])])])
       [''index.js''] [] 10).
         \<forall>seg \<in> set (butlast (splitPath p)).
           seg \<noteq> ''node_modules'' \<and> seg \<noteq> ''target'' \<and> seg \<noteq> ''dist'' \<and> \<not> startsWith seg ''.''"
    by blast+
  with v s find_node_modules show ?thesis
    by (simp add: list_all_iff case_prod_unfold del: walkEntries.simps)
qed

lemma find_eslintrc:
  "findRelevantFiles
     (Entries [File ''.eslintrc.js'', Directory ''src'' (Entries [File ''index.ts''])])
     [''.eslintrc.js''] [] 10 = [(''src/index.ts'', ''Entry point file'')]"
  by code_simp

theorem dot_files_skipped_witness:
  "startsWith ''.eslintrc.js'' ''.'' \<and>
   walkEntries [''.eslintrc.js''] [] [] 0 [File ''.eslintrc.js''] =
     walkEntries [''.eslintrc.js''] [] [] 0 [] \<and>
   validListing (Entries [File ''.eslintrc.js'', Directory ''src'' (Entries [File ''index.ts''])]) \<and>
   findRelevantFiles
     (Entries [File ''.eslintrc.js'', Directory ''src'' (Entries [File ''index.ts''])])
     [''.eslintrc.js''] [] 10 = [(''src/index.ts'', ''Entry point file'')] \<and>
   list_all (\<lambda>(p, rsn). \<not> startsWith (last (splitPath p)) ''.'')
     (findRelevantFiles
       (Entries [File ''.eslintrc.js'', Directory ''src'' (Entries [File ''index.ts''])])
       [''.eslintrc.js''] [] 10)"
proof -
  have d: "startsWith ''.eslintrc.js'' ''.''"
    by code_simp
  have v: "validListing (Entries [File ''.eslintrc.js'', Directory ''src'' (Entries [File ''index.ts''])])"
    by code_simp
  note t = dot_files_skipped
    [of "''.eslintrc.js''" "[''.eslintrc.js'']" "[]" "[]" 0 "[]"
        "Entries [File ''.eslintrc.js'', Directory ''src'' (Entries [File ''index.ts''])]" 10]
  from t d v have
    "walkEntries [''.eslintrc.js''] [] [] 0 [File ''.eslintrc.js''] =
     walkEntries [''.eslintrc.js''] [] [] 0 []"
    and "\<forall>(p, rsn) \<in> set (findRelevantFiles
       (Entries [File ''.eslintrc.js'', Directory ''src'' (Entries [File ''index.ts''])])
       [''.eslintrc.js''] [] 10). \<not> startsWith (last (splitPath p)) ''.''"
    by blast+
  with d v find_eslintrc show ?thesis
    by (simp add: list_all_iff case_prod_unfold del: walkEntries.simps)
qed

section \<open>Properties of the keyword extractor\<close>

lemma set_dedupe_from:
  "set (foldl (\<lambda>acc x. if x \<in> set acc then acc else acc @ [x]) acc xs) = set acc \<union> set xs"
  by (induction xs arbitrary: acc) auto

lemma set_dedupe: "set (dedupe xs) = set xs"
  by (simp add: dedupe_def set_dedupe_from)

text \<open>
  Claim C6. The result holds the identifiers that the pattern matches and the lower-cased
  words longer than 3 characters that are not stop words. But the first alternative of the
  pattern requires an upper-case first letter, so a compound that begins with a lower-case
  letter is matched by none of the three alternatives: for the text \<open>parseConfig\<close> no
  identifier is found, and the result holds the lower-cased word \<open>parseconfig\<close> only, not
  \<open>parseConfig\<close>. The same compound with a capital first letter is extracted.
\<close>

theorem extractKeywords_lower_camel_case:
  "set (extractKeywords text) =
     set (scanIdentifiers None text) \<union>
     {w \<in> set (splitWhitespace (blankNonAlnum (toLowerCase text))).
        3 < length w \<and> w \<notin> set stopWords} \<and>
   scanIdentifiers None ''parseConfig'' = [] \<and>
   extractKeywords ''parseConfig'' = [''parseconfig''] \<and>
   ''parseConfig'' \<notin> set (extractKeywords ''parseConfig'') \<and>
   extractKeywords ''ParseConfig'' = [''ParseConfig'', ''parseconfig'']"
proof (intro conjI)
  show "set (extractKeywords text) =
     set (scanIdentifiers None text) \<union>
     {w \<in> set (splitWhitespace (blankNonAlnum (toLowerCase text))).
        3 < length w \<and> w \<notin> set stopWords}"
    by (simp add: extractKeywords_def set_dedupe)
  show "scanIdentifiers None ''parseConfig'' = []"
    by code_simp
  show "extractKeywords ''parseConfig'' = [''parseconfig'']"
    by code_simp
  show "''parseConfig'' \<notin> set (extractKeywords ''parseConfig'')"
    by code_simp
  show "extractKeywords ''ParseConfig'' = [''ParseConfig'', ''parseconfig'']"
    by code_simp
qed

section \<open>Properties of the task brief\<close>

lemma readFileContent_error:
  "rd file = Inl err \<Longrightarrow> readFileContent rd file maxLines = ''[Error reading file: '' @ err @ '']''"
  by (simp add: readFileContent_def)

lemma sublist_concat_map: "x \<in> set xs \<Longrightarrow> sublist (f x) (concat (map f xs))"
proof -
  assume "x \<in> set xs"
  then obtain ys zs where "xs = ys @ x # zs" by (auto dest: split_list)
  then have "concat (map f xs) = concat (map f ys) @ f x @ concat (map f zs)" by simp
  then show ?thesis unfolding sublist_def by blast
qed

lemma sublist_filesSection:
  "file \<in> set (relevantFiles ctx) \<Longrightarrow> sublist (fileLines file) (filesSection ctx)"
proof -
  assume a: "file \<in> set (relevantFiles ctx)"
  then have ne: "length (relevantFiles ctx) \<noteq> 0" by auto
  have "sublist (fileLines file) (concat (map fileLines (relevantFiles ctx)))"
    using a by (rule sublist_concat_map)
  then obtain ps ss where "concat (map fileLines (relevantFiles ctx)) = ps @ fileLines file @ ss"
    unfolding sublist_def by blast
  then have "[''---'', '''', ''## Relevant Files'', ''''] @ concat (map fileLines (relevantFiles ctx)) =
      ([''---'', '''', ''## Relevant Files'', ''''] @ ps) @ fileLines file @ ss"
    by simp
  then have "sublist (fileLines file)
     ([''---'', '''', ''## Relevant Files'', ''''] @ concat (map fileLines (relevantFiles ctx)))"
    unfolding sublist_def by blast
  then show ?thesis using ne by (simp add: filesSection_def)
qed

lemma sublist_taskFileLines:
  "file \<in> set (relevantFiles ctx) \<Longrightarrow> sublist (fileLines file) (taskFileLines fmt ctx)"
proof -
  assume "file \<in> set (relevantFiles ctx)"
  then have "sublist (fileLines file) (filesSection ctx)" by (rule sublist_filesSection)
  then obtain ps ss where "filesSection ctx = ps @ fileLines file @ ss"
    unfolding sublist_def by blast
  then have "taskFileLines fmt ctx =
      (headerLines ctx @ commentsSection fmt ctx @ ps) @ fileLines file @ (ss @ footerLines ctx)"
    by (simp add: taskFileLines_def)
  then show ?thesis unfolding sublist_def by blast
qed

lemma relevantFiles_buildTaskContext:
  "relevantFiles (buildTaskContext e iss repo branch) =
     map (\<lambda>(p, rsn). \<lparr>filePath = p,
                        content = readFileContent (readFileSync e) (pathJoin repo p) 500,
                        fileReason = rsn\<rparr>)
       (relevantFilePaths e iss repo)"
  by (simp add: buildTaskContext_def)

lemma file_block_rendered:
  assumes "(p, rsn) \<in> set (relevantFilePaths e iss repo)"
  shows "sublist
     (fileLines \<lparr>filePath = p, content = readFileContent (readFileSync e) (pathJoin repo p) 500,
                 fileReason = rsn\<rparr>)
     (taskFileLines fmt (buildTaskContext e iss repo branch))"
proof (rule sublist_taskFileLines)
  have "(\<lambda>(p, rsn). \<lparr>filePath = p,
                        content = readFileContent (readFileSync e) (pathJoin repo p) 500,
                        fileReason = rsn\<rparr>) (p, rsn)
     \<in> set (relevantFiles (buildTaskContext e iss repo branch))"
    unfolding relevantFiles_buildTaskContext set_map using assms by (rule imageI)
  then show "\<lparr>filePath = p, content = readFileContent (readFileSync e) (pathJoin repo p) 500,
                 fileReason = rsn\<rparr> \<in> set (relevantFiles (buildTaskContext e iss repo branch))"
    by simp
qed

text \<open>
  Claim C7. A failure to read a relevant file is caught in \<open>readFileContent\<close>, which
  returns the marker \<open>[Error reading file: ...]\<close>. The brief is rendered all the same:
  the block of the file that could not be read is in the document, with the marker as its
  content; the block of every relevant file is in the document; the document begins with
  the header and ends with the footer; and when the write succeeds the document is the task
  file written.
\<close>

theorem read_failure_inline_marker:
  "(readFileSync e target = Inl err \<longrightarrow>
      readFileContent (readFileSync e) target maxLines = ''[Error reading file: '' @ err @ '']'') \<and>
   ((p, rsn) \<in> set (relevantFilePaths e iss repo) \<and> readFileSync e (pathJoin repo p) = Inl err \<longrightarrow>
      sublist [''### `'' @ p @ ''`'', ''*'' @ rsn @ ''*'', '''', ''```'',
               ''[Error reading file: '' @ err @ '']'', ''```'', '''']
        (taskFileLines (toLocaleDateString e) (buildTaskContext e iss repo branch))) \<and>
   (\<forall>(q, r) \<in> set (relevantFilePaths e iss repo).
      sublist (fileLines \<lparr>filePath = q,
                          content = readFileContent (readFileSync e) (pathJoin repo q) 500,
                          fileReason = r\<rparr>)
        (taskFileLines (toLocaleDateString e) (buildTaskContext e iss repo branch))) \<and>
   prefix (headerLines (buildTaskContext e iss repo branch))
     (taskFileLines (toLocaleDateString e) (buildTaskContext e iss repo branch)) \<and>
   suffix (footerLines (buildTaskContext e iss repo branch))
     (taskFileLines (toLocaleDateString e) (buildTaskContext e iss repo branch)) \<and>
   taskContent e iss repo branch =
     joinWith newline (taskFileLines (toLocaleDateString e) (buildTaskContext e iss repo branch)) \<and>
   (writeFileSync e (taskFilePathOf e iss) (taskContent e iss repo branch) = None \<longrightarrow>
      (taskFilePathOf e iss, taskContent e iss repo branch)
        \<in> set (taskFiles (snd (buildContext e iss repo branch w))))"
proof (intro conjI impI)
  assume "readFileSync e target = Inl err"
  then show "readFileContent (readFileSync e) target maxLines = ''[Error reading file: '' @ err @ '']''"
    by (rule readFileContent_error)
next
  assume a: "(p, rsn) \<in> set (relevantFilePaths e iss repo) \<and> readFileSync e (pathJoin repo p) = Inl err"
  then have "readFileContent (readFileSync e) (pathJoin repo p) 500 = ''[Error reading file: '' @ err @ '']''"
    by (simp add: readFileContent_error)
  with file_block_rendered [of p rsn e iss repo "toLocaleDateString e" branch] a
  show "sublist [''### `'' @ p @ ''`'', ''*'' @ rsn @ ''*'', '''', ''```'',
               ''[Error reading file: '' @ err @ '']'', ''```'', '''']
        (taskFileLines (toLocaleDateString e) (buildTaskContext e iss repo branch))"
    by (simp add: fileLines_def)
next
  show "\<forall>(q, r) \<in> set (relevantFilePaths e iss repo).
      sublist (fileLines \<lparr>filePath = q,
                          content = readFileContent (readFileSync e) (pathJoin repo q) 500,
                          fileReason = r\<rparr>)
        (taskFileLines (toLocaleDateString e) (buildTaskContext e iss repo branch))"
    using file_block_rendered by blast
next
  show "prefix (headerLines (buildTaskContext e iss repo branch))
     (taskFileLines (toLocaleDateString e) (buildTaskContext e iss repo branch))"
    by (simp add: taskFileLines_def)
next
  show "suffix (footerLines (buildTaskContext e iss repo branch))
     (taskFileLines (toLocaleDateString e) (buildTaskContext e iss repo branch))"
    unfolding taskFileLines_def suffix_def by (metis append.assoc)
next
  show "taskContent e iss repo branch =
     joinWith newline (taskFileLines (toLocaleDateString e) (buildTaskContext e iss repo branch))"
    by (simp add: taskContent_def generateTaskFile_def)
next
  assume "writeFileSync e (taskFilePathOf e iss) (taskContent e iss repo branch) = None"
  then show "(taskFilePathOf e iss, taskContent e iss repo branch)
        \<in> set (taskFiles (snd (buildContext e iss repo branch w)))"
    by (simp add: buildContext_def updateIssueStatus_def updateIssueTaskFile_def)
qed

lemma sample_relevant:
  "relevantFilePaths sampleEnv (sampleIssue 2 ''acme/app'' ''2024-01-01'') ''/repos/acme/app'' =
     [(''main.ts'', ''Entry point file'')]"
  by code_simp

lemma sample_read_fails:
  "readFileSync sampleEnv (pathJoin ''/repos/acme/app'' ''main.ts'') =
     Inl ''Error: ENOENT: no such file or directory''"
  by code_simp

lemma sample_write_ok:
  "writeFileSync sampleEnv (taskFilePathOf sampleEnv (sampleIssue 2 ''acme/app'' ''2024-01-01''))
     (taskContent sampleEnv (sampleIssue 2 ''acme/app'' ''2024-01-01'') ''/repos/acme/app''
        ''fix/issue-2'') = None"
  by (simp add: sampleEnv_def)

lemma sample_file_lines:
  "filesSection (buildTaskContext sampleEnv (sampleIssue 2 ''acme/app'' ''2024-01-01'')
     ''/repos/acme/app'' ''fix/issue-2'') =
   [''---'', '''', ''## Relevant Files'', '''',
    ''### `main.ts`'', ''*Entry point file*'', '''', ''```'',
    ''[Error reading file: Error: ENOENT: no such file or directory]'', ''```'', '''']"
  by code_simp

theorem read_failure_inline_marker_witness:
  "(''main.ts'', ''Entry point file'')
     \<in> set (relevantFilePaths sampleEnv (sampleIssue 2 ''acme/app'' ''2024-01-01'') ''/repos/acme/app'') \<and>
   readFileSync sampleEnv (pathJoin ''/repos/acme/app'' ''main.ts'') =
     Inl ''Error: ENOENT: no such file or directory'' \<and>
   readFileContent (readFileSync sampleEnv) (pathJoin ''/repos/acme/app'' ''main.ts'') 500 =
     ''[Error reading file: Error: ENOENT: no such file or directory]'' \<and>
   sublist [''### `main.ts`'', ''*Entry point file*'', '''', ''```'',
            ''[Error reading file: Error: ENOENT: no such file or directory]'', ''```'', '''']
     (taskFileLines (toLocaleDateString sampleEnv)
        (buildTaskContext sampleEnv (sampleIssue 2 ''acme/app'' ''2024-01-01'')
           ''/repos/acme/app'' ''fix/issue-2'')) \<and>
   writeFileSync sampleEnv (taskFilePathOf sampleEnv (sampleIssue 2 ''acme/app'' ''2024-01-01''))
     (taskContent sampleEnv (sampleIssue 2 ''acme/app'' ''2024-01-01'') ''/repos/acme/app''
        ''fix/issue-2'') = None \<and>
   (taskFilePathOf sampleEnv (sampleIssue 2 ''acme/app'' ''2024-01-01''),
    taskContent sampleEnv (sampleIssue 2 ''acme/app'' ''2024-01-01'') ''/repos/acme/app''
      ''fix/issue-2'')
     \<in> set (taskFiles (snd (buildContext sampleEnv (sampleIssue 2 ''acme/app'' ''2024-01-01'')
         ''/repos/acme/app'' ''fix/issue-2'' sampleWorld)))"
proof -
  have m: "(''main.ts'', ''Entry point file'')
     \<in> set (relevantFilePaths sampleEnv (sampleIssue 2 ''acme/app'' ''2024-01-01'') ''/repos/acme/app'')"
    by (simp add: sample_relevant)
  note t = read_failure_inline_marker
    [where e = sampleEnv and target = "pathJoin ''/repos/acme/app'' ''main.ts''"
       and err = "''Error: ENOENT: no such file or directory''" and maxLines = 500
       and p = "''main.ts''" and rsn = "''Entry point file''"
       and iss = "sampleIssue 2 ''acme/app'' ''2024-01-01''" and repo = "''/repos/acme/app''"
       and branch = "''fix/issue-2''" and w = sampleWorld]
  have c1: "readFileContent (readFileSync sampleEnv) (pathJoin ''/repos/acme/app'' ''main.ts'') 500 =
      ''[Error reading file: '' @ ''Error: ENOENT: no such file or directory'' @ '']''"
    using t sample_read_fails by blast
  have c2: "sublist [''### `'' @ ''main.ts'' @ ''`'', ''*'' @ ''Entry point file'' @ ''*'', [], ''```'',
               ''[Error reading file: '' @ ''Error: ENOENT: no such file or directory'' @ '']'',
               ''```'', []]
     (taskFileLines (toLocaleDateString sampleEnv)
        (buildTaskContext sampleEnv (sampleIssue 2 ''acme/app'' ''2024-01-01'')
           ''/repos/acme/app'' ''fix/issue-2''))"
    using t m sample_read_fails by blast
  have c3: "(taskFilePathOf sampleEnv (sampleIssue 2 ''acme/app'' ''2024-01-01''),
    taskContent sampleEnv (sampleIssue 2 ''acme/app'' ''2024-01-01'') ''/repos/acme/app''
      ''fix/issue-2'')
     \<in> set (taskFiles (snd (buildContext sampleEnv (sampleIssue 2 ''acme/app'' ''2024-01-01'')
         ''/repos/acme/app'' ''fix/issue-2'' sampleWorld)))"
    using t sample_write_ok by blast
  from c1 have c1': "readFileContent (readFileSync sampleEnv) (pathJoin ''/repos/acme/app'' ''main.ts'') 500 =
      ''[Error reading file: Error: ENOENT: no such file or directory]''"
    by simp
  from c2 have c2': "sublist [''### `main.ts`'', ''*Entry point file*'', [], ''```'',
            ''[Error reading file: Error: ENOENT: no such file or directory]'', ''```'', []]
     (taskFileLines (toLocaleDateString sampleEnv)
        (buildTaskContext sampleEnv (sampleIssue 2 ''acme/app'' ''2024-01-01'')
           ''/repos/acme/app'' ''fix/issue-2''))"
    by simp
  from m sample_read_fails sample_write_ok c1' c2' c3 show ?thesis
    by blast
qed

section \<open>Properties of the processing loop\<close>

lemma find_map_same_id:
  "(\<And>r. issue_id (f r) = issue_id r) \<Longrightarrow>
   find (\<lambda>r. issue_id r = j) (map f rows) = map_option f (find (\<lambda>r. issue_id r = j) rows)"
  by (induction rows) auto

lemma ids_updateIssueStatus [simp]:
  "map issue_id (issues (updateIssueStatus i s w)) = map issue_id (issues w)"
  by (simp add: updateIssueStatus_def comp_def)

lemma ids_updateIssueBranch [simp]:
  "map issue_id (issues (updateIssueBranch i b w)) = map issue_id (issues w)"
  by (simp add: updateIssueBranch_def comp_def)

lemma ids_updateIssueTaskFile [simp]:
  "map issue_id (issues (updateIssueTaskFile i p w)) = map issue_id (issues w)"
  by (simp add: updateIssueTaskFile_def comp_def)

lemma issues_logMessage [simp]: "issues (logMessage l m w) = issues w"
  by (simp add: logMessage_def)

lemma statusOf_logMessage [simp]: "statusOf j (logMessage l m w) = statusOf j w"
  by (simp add: statusOf_def)

lemma statusOf_taskFiles [simp]: "statusOf j (w\<lparr>taskFiles := t\<rparr>) = statusOf j w"
  by (simp add: statusOf_def)

lemma statusOf_updateIssueBranch [simp]: "statusOf j (updateIssueBranch i b w) = statusOf j w"
proof -
  have "find (\<lambda>r. issue_id r = j)
          (map (\<lambda>r. if issue_id r = i then r\<lparr>branch_name := Some b\<rparr> else r) (issues w)) =
        map_option (\<lambda>r. if issue_id r = i then r\<lparr>branch_name := Some b\<rparr> else r)
          (find (\<lambda>r. issue_id r = j) (issues w))"
    by (rule find_map_same_id) simp
  then show ?thesis
    by (cases "find (\<lambda>r. issue_id r = j) (issues w)") (simp_all add: statusOf_def updateIssueBranch_def)
qed

lemma statusOf_updateIssueTaskFile [simp]: "statusOf j (updateIssueTaskFile i p w) = statusOf j w"
proof -
  have "find (\<lambda>r. issue_id r = j)
          (map (\<lambda>r. if issue_id r = i then r\<lparr>task_file_path := Some p\<rparr> else r) (issues w)) =
        map_option (\<lambda>r. if issue_id r = i then r\<lparr>task_file_path := Some p\<rparr> else r)
          (find (\<lambda>r. issue_id r = j) (issues w))"
    by (rule find_map_same_id) simp
  then show ?thesis
    by (cases "find (\<lambda>r. issue_id r = j) (issues w)") (simp_all add: statusOf_def updateIssueTaskFile_def)
qed

lemma statusOf_None_iff: "statusOf j w = None \<longleftrightarrow> j \<notin> set (map issue_id (issues w))"
  by (auto simp: statusOf_def find_None_iff)

lemma find_Some_id: "find (\<lambda>r. issue_id r = j) rows = Some r \<Longrightarrow> issue_id r = j \<and> r \<in> set rows"
  by (auto simp: find_Some_iff)

lemma statusOf_updateIssueStatus:
  "statusOf j (updateIssueStatus i s w) =
     (if j = i \<and> j \<in> set (map issue_id (issues w)) then Some s else statusOf j w)"
proof -
  have e: "find (\<lambda>r. issue_id r = j)
          (map (\<lambda>r. if issue_id r = i then r\<lparr>status := s\<rparr> else r) (issues w)) =
        map_option (\<lambda>r. if issue_id r = i then r\<lparr>status := s\<rparr> else r)
          (find (\<lambda>r. issue_id r = j) (issues w))"
    by (rule find_map_same_id) simp
  show ?thesis
  proof (cases "find (\<lambda>r. issue_id r = j) (issues w)")
    case None
    then have "j \<notin> set (map issue_id (issues w))" by (auto simp: find_None_iff)
    with None e show ?thesis by (simp add: statusOf_def updateIssueStatus_def)
  next
    case (Some r)
    then have "issue_id r = j" "r \<in> set (issues w)" using find_Some_id by blast+
    then have "j \<in> set (map issue_id (issues w))" by auto
    with Some e \<open>issue_id r = j\<close> show ?thesis
      by (simp add: statusOf_def updateIssueStatus_def del: set_map)
  qed
qed

lemma tryProcess_throws: "isl (fst (tryProcess e iss w)) \<longleftrightarrow> throws e iss"
  by (auto simp: tryProcess_def throws_def createIssueBranch_def buildContext_def Let_def
      split: sum.splits option.splits prod.splits)

lemma ids_tryProcess [simp]:
  "map issue_id (issues (snd (tryProcess e iss w))) = map issue_id (issues w)"
  by (auto simp: tryProcess_def createIssueBranch_def buildContext_def Let_def
      split: sum.splits option.splits prod.splits)

lemma ids_processIssue [simp]:
  "map issue_id (issues (processIssue e iss w)) = map issue_id (issues w)"
proof -
  obtain r w' where t: "tryProcess e iss w = (r, w')" by (cases "tryProcess e iss w")
  then have "map issue_id (issues w') = map issue_id (issues w)"
    using ids_tryProcess [of e iss w] by simp
  then show ?thesis
    by (cases r) (simp_all add: processIssue_def t)
qed

lemma statusOf_tryProcess:
  "statusOf j (snd (tryProcess e iss w)) =
     (if j = issue_id iss \<and> j \<in> set (map issue_id (issues w)) \<and> \<not> throws e iss
      then Some Ready else statusOf j w)"
  by (auto simp: tryProcess_def throws_def createIssueBranch_def buildContext_def Let_def
        statusOf_updateIssueStatus
      split: sum.splits option.splits prod.splits)

lemma statusOf_processIssue:
  "statusOf j (processIssue e iss w) =
     (if j = issue_id iss \<and> j \<in> set (map issue_id (issues w))
      then Some (if throws e iss then Skipped else Ready) else statusOf j w)"
proof -
  obtain r w' where t: "tryProcess e iss w = (r, w')" by (cases "tryProcess e iss w")
  have i: "map issue_id (issues w') = map issue_id (issues w)"
    using ids_tryProcess [of e iss w] t by simp
  have s: "statusOf j w' =
     (if j = issue_id iss \<and> j \<in> set (map issue_id (issues w)) \<and> \<not> throws e iss
      then Some Ready else statusOf j w)"
    using statusOf_tryProcess [of j e iss w] t by simp
  have th: "isl r \<longleftrightarrow> throws e iss"
    using tryProcess_throws [of e iss w] t by simp
  show ?thesis
  proof (cases r)
    case (Inl err)
    with th have "throws e iss" by simp
    then have "statusOf j w' = statusOf j w" using s by simp
    with Inl i \<open>throws e iss\<close> show ?thesis
      by (auto simp add: processIssue_def t statusOf_updateIssueStatus simp del: set_map)
  next
    case (Inr u)
    with th have "\<not> throws e iss" by simp
    with Inr s show ?thesis
      by (auto simp add: processIssue_def t simp del: set_map)
  qed
qed


lemma statusOf_foldl_other:
  "j \<notin> set (map issue_id todo) \<Longrightarrow>
   statusOf j (foldl (\<lambda>w' iss. processIssue e iss w') w todo) = statusOf j w"
  by (induction todo arbitrary: w) (simp_all add: statusOf_processIssue del: set_map)

lemma ids_foldl [simp]:
  "map issue_id (issues (foldl (\<lambda>w' iss. processIssue e iss w') w todo)) = map issue_id (issues w)"
  by (induction todo arbitrary: w) simp_all

lemma statusOf_foldl:
  "distinct (map issue_id todo) \<Longrightarrow> iss \<in> set todo \<Longrightarrow>
   issue_id iss \<in> set (map issue_id (issues w)) \<Longrightarrow>
   statusOf (issue_id iss) (foldl (\<lambda>w' iss. processIssue e iss w') w todo) =
     Some (if throws e iss then Skipped else Ready)"
proof (induction todo arbitrary: w)
  case Nil
  then show ?case by simp
next
  case (Cons i todo)
  show ?case
  proof (cases "iss = i")
    case True
    have "issue_id i \<notin> set (map issue_id todo)" using Cons.prems(1) by simp
    then have "statusOf (issue_id i) (foldl (\<lambda>w' iss. processIssue e iss w') (processIssue e i w) todo)
        = statusOf (issue_id i) (processIssue e i w)"
      by (rule statusOf_foldl_other)
    also have "\<dots> = Some (if throws e i then Skipped else Ready)"
      using Cons.prems(3) True by (simp add: statusOf_processIssue del: set_map)
    finally show ?thesis using True by simp
  next
    case False
    with Cons.prems have "distinct (map issue_id todo)" "iss \<in> set todo"
      "issue_id iss \<in> set (map issue_id (issues (processIssue e i w)))"
      by simp_all
    from Cons.IH [OF this] show ?thesis by simp
  qed
qed

lemma set_getIssuesByStatus:
  "set (getIssuesByStatus s w) = {r \<in> set (issues w). status r = s}"
  by (auto simp: getIssuesByStatus_def)

lemma distinct_getIssuesByStatus:
  "distinct (map issue_id (issues w)) \<Longrightarrow> distinct (map issue_id (getIssuesByStatus s w))"
proof -
  assume d: "distinct (map issue_id (issues w))"
  then have "distinct (map issue_id (filter (\<lambda>r. status r = s) (issues w)))"
    by (rule distinct_map_filter)
  then have "distinct (filter (\<lambda>r. status r = s) (issues w))"
    and "inj_on issue_id (set (filter (\<lambda>r. status r = s) (issues w)))"
    by (simp_all add: distinct_map)
  then show ?thesis
    by (simp add: getIssuesByStatus_def distinct_map rev_map [symmetric])
qed

lemma logged_simps [simp]:
  "logged (updateIssueStatus i s w) = logged w"
  "logged (updateIssueBranch i b w) = logged w"
  "logged (updateIssueTaskFile i p w) = logged w"
  "logged (logMessage l m w) = logged w @ [(l, m)]"
  by (simp_all add: updateIssueStatus_def updateIssueBranch_def updateIssueTaskFile_def logMessage_def)

lemma not_processing_ready:
  "\<not> isProcessingEntry (Info, ''Issue #'' @ m)"
  by (simp add: isProcessingEntry_def)

lemma not_processing_error: "\<not> isProcessingEntry (Error, m)"
  by (simp add: isProcessingEntry_def)

lemma is_processing_entry: "isProcessingEntry (processingEntry iss)"
  by (simp add: isProcessingEntry_def processingEntry_def)

lemma logged_tryProcess:
  "filter isProcessingEntry (logged (snd (tryProcess e iss w))) =
   filter isProcessingEntry (logged w) @ [processingEntry iss]"
  using is_processing_entry [of iss] not_processing_ready
  by (auto simp: tryProcess_def createIssueBranch_def buildContext_def Let_def processingEntry_def
      split: sum.splits option.splits prod.splits)

lemma logged_processIssue:
  "filter isProcessingEntry (logged (processIssue e iss w)) =
   filter isProcessingEntry (logged w) @ [processingEntry iss]"
proof -
  obtain r w' where t: "tryProcess e iss w = (r, w')" by (cases "tryProcess e iss w")
  then have "filter isProcessingEntry (logged w') = filter isProcessingEntry (logged w) @ [processingEntry iss]"
    using logged_tryProcess [of e iss w] by simp
  then show ?thesis
    by (cases r) (simp_all add: processIssue_def t not_processing_error)
qed

lemma logged_foldl:
  "filter isProcessingEntry (logged (foldl (\<lambda>w' iss. processIssue e iss w') w todo)) =
   filter isProcessingEntry (logged w) @ map processingEntry todo"
  by (induction todo arbitrary: w) (simp_all add: logged_processIssue)

text \<open>
  Claim C9. Let the rows of the table have distinct ids, and take an issue of status
  \<open>new\<close>. If processing it throws (cloning, creating the branch or building the context),
  its status after \<open>processNewIssues\<close> is \<open>skipped\<close>; otherwise it is \<open>ready\<close>. The loop
  goes on after a failure and takes up every new issue exactly once, in the order of the
  query: the entries \<open>Processing issue ...\<close> that the run adds to the log are those of the
  new issues, one each.
\<close>

theorem failed_issue_marked_skipped:
  assumes "distinct (map issue_id (issues w))" and "iss \<in> set (getIssuesByStatus New w)"
  shows "(isl (fst (tryProcess e iss w)) \<longrightarrow>
            statusOf (issue_id iss) (processNewIssues e w) = Some Skipped) \<and>
         (\<not> isl (fst (tryProcess e iss w)) \<longrightarrow>
            statusOf (issue_id iss) (processNewIssues e w) = Some Ready) \<and>
         filter isProcessingEntry (logged (processNewIssues e w)) =
           filter isProcessingEntry (logged w) @ map processingEntry (getIssuesByStatus New w)"
proof -
  have d: "distinct (map issue_id (getIssuesByStatus New w))"
    using assms(1) by (rule distinct_getIssuesByStatus)
  have "iss \<in> set (issues w)" using assms(2) by (simp add: set_getIssuesByStatus)
  then have i: "issue_id iss \<in> set (map issue_id (issues w))" by simp
  have "statusOf (issue_id iss) (processNewIssues e w) = Some (if throws e iss then Skipped else Ready)"
    unfolding processNewIssues_def by (rule statusOf_foldl [OF d assms(2) i])
  then show ?thesis
    by (simp add: tryProcess_throws processNewIssues_def logged_foldl)
qed

lemma sample_distinct: "distinct (map issue_id (issues sampleWorld))"
  by code_simp

lemma sample_new:
  "getIssuesByStatus New sampleWorld =
     [sampleIssue 1 ''acme/broken'' ''2024-01-02'', sampleIssue 2 ''acme/app'' ''2024-01-01'']"
  by code_simp

lemma sample_throws:
  "isl (fst (tryProcess sampleEnv (sampleIssue 1 ''acme/broken'' ''2024-01-02'') sampleWorld))"
  by code_simp

lemma sample_run:
  "map (\<lambda>r. (issue_id r, status r)) (issues (processNewIssues sampleEnv sampleWorld)) =
     [(1, Skipped), (2, Ready)]"
  by code_simp

lemma sample_log:
  "logged (processNewIssues sampleEnv sampleWorld) =
     [(Info, ''Processing issue #1 in acme/broken''),
      (Error, ''Failed to process issue #1: Error: Repository acme/broken not found in database. Run a scan first.''),
      (Info, ''Processing issue #2 in acme/app''),
      (Info, ''Issue #2 is ready for fixing'')]"
  by code_simp

theorem failed_issue_marked_skipped_witness:
  "distinct (map issue_id (issues sampleWorld)) \<and>
   sampleIssue 1 ''acme/broken'' ''2024-01-02'' \<in> set (getIssuesByStatus New sampleWorld) \<and>
   isl (fst (tryProcess sampleEnv (sampleIssue 1 ''acme/broken'' ''2024-01-02'') sampleWorld)) \<and>
   statusOf 1 (processNewIssues sampleEnv sampleWorld) = Some Skipped \<and>
   statusOf 2 (processNewIssues sampleEnv sampleWorld) = Some Ready \<and>
   filter isProcessingEntry (logged (processNewIssues sampleEnv sampleWorld)) =
     [(Info, ''Processing issue #1 in acme/broken''), (Info, ''Processing issue #2 in acme/app'')]"
proof -
  have n: "sampleIssue 1 ''acme/broken'' ''2024-01-02'' \<in> set (getIssuesByStatus New sampleWorld)"
    by (simp add: sample_new)
  have i: "issue_id (sampleIssue 1 ''acme/broken'' ''2024-01-02'') = 1"
    by (simp add: sampleIssue_def)
  note t = failed_issue_marked_skipped [OF sample_distinct n, of sampleEnv, unfolded i]
  have s1: "statusOf 1 (processNewIssues sampleEnv sampleWorld) = Some Skipped"
    using t sample_throws by blast
  have s2: "statusOf 2 (processNewIssues sampleEnv sampleWorld) = Some Ready"
    by code_simp
  have l: "filter isProcessingEntry (logged (processNewIssues sampleEnv sampleWorld)) =
     [(Info, ''Processing issue #1 in acme/broken''), (Info, ''Processing issue #2 in acme/app'')]"
    unfolding sample_log by code_simp
  from sample_distinct n sample_throws s1 s2 l show ?thesis by blast
qed

end
